(* ===== verification/Prelude.thy ===== *)
theory Prelude
  imports Main "HOL-Library.Word"
begin

text \<open>
  Shared vocabulary of the development: machine integers, the result of an effectful Rust
  function, the sequencing operators that stand for \<^verbatim>\<open>?\<close> and \<^verbatim>\<open>match\<close> on a \<^verbatim>\<open>Result\<close>, the
  fact collections the component proofs use, and generic facts about lists and words.
\<close>

unbundle bit_operations_syntax

section \<open>Types\<close>

type_synonym u8 = "8 word"
type_synonym u32 = "32 word"
type_synonym i32 = "32 word"
type_synonym u64 = "64 word"
type_synonym bytes = "u8 list"

named_theorems act_simps \<open>unfolding rules of the effect combinators\<close>
named_theorems wp_simps \<open>weakest preconditions of the combinators and calls\<close>
named_theorems str_simps \<open>rewriting rules for Rust string operations\<close>
named_theorems stays_intros \<open>rules for file-system invariants kept by every call\<close>

section \<open>Results of effectful code\<close>

text \<open>
  An effectful function ends with \<open>Ok\<close> or \<open>Err\<close> as in Rust, or never comes back to its
  caller: a panic (the release profile has \<^verbatim>\<open>panic = "abort"\<close>) or a blocking call that is
  never woken. The third case is a constructor of its own, so that no \<^verbatim>\<open>if let Err(_)\<close> can
  swallow it.
\<close>

datatype abort = Panic | Hang

datatype ('e, 'a) ret = Ok 'a | Err 'e | Abort abort

type_synonym ('w, 'e, 'a) act = "'w \<Rightarrow> ('e, 'a) ret \<times> 'w"

definition return :: "'a \<Rightarrow> ('w, 'e, 'a) act" where
  "return a = (\<lambda>w. (Ok a, w))"

definition throw :: "'e \<Rightarrow> ('w, 'e, 'a) act" where
  "throw e = (\<lambda>w. (Err e, w))"

text \<open>\<open>m\<close> followed by \<^verbatim>\<open>?\<close>: continue with the value, pass an error on.\<close>

definition bind :: "('w, 'e, 'a) act \<Rightarrow> ('a \<Rightarrow> ('w, 'e, 'b) act) \<Rightarrow> ('w, 'e, 'b) act" where
  "bind m f = (\<lambda>w. case m w of (Ok a, w') \<Rightarrow> f a w' | (Err e, w') \<Rightarrow> (Err e, w')
                             | (Abort x, w') \<Rightarrow> (Abort x, w'))"

definition seq :: "('w, 'e, 'a) act \<Rightarrow> ('w, 'e, 'b) act \<Rightarrow> ('w, 'e, 'b) act" where
  "seq m n = bind m (\<lambda>_. n)"

text \<open>\<^verbatim>\<open>match m { Ok(a) => f(a), Err(e) => g(e) }\<close>.\<close>

definition handle ::
  "('w, 'e, 'a) act \<Rightarrow> ('a \<Rightarrow> ('w, 'd, 'b) act) \<Rightarrow> ('e \<Rightarrow> ('w, 'd, 'b) act) \<Rightarrow> ('w, 'd, 'b) act" where
  "handle m f g = (\<lambda>w. case m w of (Ok a, w') \<Rightarrow> f a w' | (Err e, w') \<Rightarrow> g e w'
                                 | (Abort x, w') \<Rightarrow> (Abort x, w'))"

definition map_err :: "('e \<Rightarrow> 'd) \<Rightarrow> ('w, 'e, 'a) act \<Rightarrow> ('w, 'd, 'a) act" where
  "map_err f m = handle m return (\<lambda>e. throw (f e))"

text \<open>A pure result (\<open>Inl\<close> the error) used inside effectful code.\<close>

definition lift :: "'e + 'a \<Rightarrow> ('w, 'e, 'a) act" where
  "lift r = (case r of Inl e \<Rightarrow> throw e | Inr a \<Rightarrow> return a)"

lemma return_apply [simp, act_simps]: "return a w = (Ok a, w)"
  by (simp add: return_def)

lemma throw_apply [simp, act_simps]: "throw e w = (Err e, w)"
  by (simp add: throw_def)

lemma bind_apply [act_simps]:
  "bind m f w = (case m w of (Ok a, w') \<Rightarrow> f a w' | (Err e, w') \<Rightarrow> (Err e, w')
                           | (Abort x, w') \<Rightarrow> (Abort x, w'))"
  by (simp add: bind_def)

lemma seq_apply [act_simps]:
  "seq m n w = (case m w of (Ok _, w') \<Rightarrow> n w' | (Err e, w') \<Rightarrow> (Err e, w')
                          | (Abort x, w') \<Rightarrow> (Abort x, w'))"
  by (simp add: seq_def bind_def)

lemma handle_apply [act_simps]:
  "handle m f g w = (case m w of (Ok a, w') \<Rightarrow> f a w' | (Err e, w') \<Rightarrow> g e w'
                               | (Abort x, w') \<Rightarrow> (Abort x, w'))"
  by (simp add: handle_def)

lemma map_err_apply [act_simps]:
  "map_err h m w = (case m w of (Ok a, w') \<Rightarrow> (Ok a, w') | (Err e, w') \<Rightarrow> (Err (h e), w')
                              | (Abort x, w') \<Rightarrow> (Abort x, w'))"
  by (simp add: map_err_def handle_def split: prod.splits ret.splits)

lemma lift_Inl [simp, act_simps]: "lift (Inl e) = throw e"
  by (simp add: lift_def)

lemma lift_Inr [simp, act_simps]: "lift (Inr a) = return a"
  by (simp add: lift_def)

lemma seq_assoc: "seq (seq m n) k = seq m (seq n k)"
  by (auto simp: fun_eq_iff seq_apply split: prod.splits ret.splits)

lemma seq_return: "seq (return a) m = m"
  by (simp add: fun_eq_iff seq_apply)

section \<open>Weakest preconditions\<close>

text \<open>
  \<open>wp m Q w\<close>: run from \<open>w\<close>, the function ends in a result and a world with \<open>Q\<close>. The equations
  push it through the combinators; \<open>wp_weaken\<close> uses the specification of a callee.
\<close>

definition wp :: "('w, 'e, 'a) act \<Rightarrow> (('e, 'a) ret \<Rightarrow> 'w \<Rightarrow> bool) \<Rightarrow> 'w \<Rightarrow> bool" where
  "wp m Q w \<longleftrightarrow> (case m w of (r, w') \<Rightarrow> Q r w')"

lemma wp_return [wp_simps]: "wp (return a) Q w \<longleftrightarrow> Q (Ok a) w"
  by (simp add: wp_def)

lemma wp_throw [wp_simps]: "wp (throw x) Q w \<longleftrightarrow> Q (Err x) w"
  by (simp add: wp_def)

lemma wp_bind [wp_simps]:
  "wp (bind m f) Q w \<longleftrightarrow>
     wp m (\<lambda>r w'. case r of Ok a \<Rightarrow> wp (f a) Q w' | Err x \<Rightarrow> Q (Err x) w' | Abort x \<Rightarrow> Q (Abort x) w') w"
  by (simp add: wp_def bind_def split: prod.splits ret.splits)

lemma wp_run: "m w = (r, w') \<Longrightarrow> wp m Q w \<longleftrightarrow> Q r w'"
  by (simp add: wp_def)

lemma wp_seq [wp_simps]:
  "wp (seq m n) Q w \<longleftrightarrow>
     wp m (\<lambda>r w'. case r of Ok _ \<Rightarrow> wp n Q w' | Err x \<Rightarrow> Q (Err x) w' | Abort x \<Rightarrow> Q (Abort x) w') w"
  by (simp add: seq_def wp_bind)

lemma wp_handle [wp_simps]:
  "wp (handle m f g) Q w \<longleftrightarrow>
     wp m (\<lambda>r w'. case r of Ok a \<Rightarrow> wp (f a) Q w' | Err x \<Rightarrow> wp (g x) Q w' | Abort x \<Rightarrow> Q (Abort x) w') w"
  by (simp add: wp_def handle_def split: prod.splits ret.splits)

lemma wp_map_err [wp_simps]:
  "wp (map_err h m) Q w \<longleftrightarrow>
     wp m (\<lambda>r w'. case r of Ok a \<Rightarrow> Q (Ok a) w' | Err x \<Rightarrow> Q (Err (h x)) w' | Abort x \<Rightarrow> Q (Abort x) w') w"
  by (simp add: wp_def map_err_apply split: prod.splits ret.splits)

lemma wp_lift [wp_simps]:
  "wp (lift r) Q w \<longleftrightarrow> (case r of Inl x \<Rightarrow> Q (Err x) w | Inr a \<Rightarrow> Q (Ok a) w)"
  by (simp add: wp_def split: sum.splits)

lemma wp_if [wp_simps]: "wp (if b then m else n) Q w \<longleftrightarrow> (if b then wp m Q w else wp n Q w)"
  by simp

lemma wp_weaken: "wp m P w \<Longrightarrow> (\<And>r w'. P r w' \<Longrightarrow> Q r w') \<Longrightarrow> wp m Q w"
  by (auto simp: wp_def)

lemma wp_conj: "wp m P w \<Longrightarrow> wp m Q w \<Longrightarrow> wp m (\<lambda>r w'. P r w' \<and> Q r w') w"
  by (auto simp: wp_def)

lemma wp_bindI:
  "wp m P w \<Longrightarrow> (\<And>a w'. P (Ok a) w' \<Longrightarrow> wp (f a) Q w') \<Longrightarrow>
     (\<And>x w'. P (Err x) w' \<Longrightarrow> Q (Err x) w') \<Longrightarrow> (\<And>x w'. P (Abort x) w' \<Longrightarrow> Q (Abort x) w') \<Longrightarrow>
     wp (bind m f) Q w"
  unfolding wp_bind by (erule wp_weaken) (auto split: ret.splits)

lemma wp_seqI:
  "wp m P w \<Longrightarrow> (\<And>a w'. P (Ok a) w' \<Longrightarrow> wp n Q w') \<Longrightarrow>
     (\<And>x w'. P (Err x) w' \<Longrightarrow> Q (Err x) w') \<Longrightarrow> (\<And>x w'. P (Abort x) w' \<Longrightarrow> Q (Abort x) w') \<Longrightarrow>
     wp (seq m n) Q w"
  unfolding seq_def by (rule wp_bindI)

lemma wp_handleI:
  "wp m P w \<Longrightarrow> (\<And>a w'. P (Ok a) w' \<Longrightarrow> wp (f a) Q w') \<Longrightarrow>
     (\<And>x w'. P (Err x) w' \<Longrightarrow> wp (g x) Q w') \<Longrightarrow> (\<And>x w'. P (Abort x) w' \<Longrightarrow> Q (Abort x) w') \<Longrightarrow>
     wp (handle m f g) Q w"
  unfolding wp_handle by (erule wp_weaken) (auto split: ret.splits)

lemma wp_True [simp]: "wp m (\<lambda>_ _. True) w"
  by (simp add: wp_def)

lemma wpD: "wp m Q w \<Longrightarrow> m w = (r, w') \<Longrightarrow> Q r w'"
  by (simp add: wp_def)

lemma wp_fst_snd: "wp m Q w \<longleftrightarrow> Q (fst (m w)) (snd (m w))"
  by (simp add: wp_def split: prod.splits)

lemmas ret_splits = prod.splits ret.splits sum.splits option.splits

section \<open>Lists\<close>

lemma dropWhile_Nil_iff [simp]: "dropWhile P xs = [] \<longleftrightarrow> (\<forall>x \<in> set xs. P x)"
  by (induction xs) auto

lemma dropWhile_id_hd: "xs = [] \<or> \<not> P (hd xs) \<Longrightarrow> dropWhile P xs = xs"
  by (cases xs) auto

lemma hd_dropWhile_not: "dropWhile P xs \<noteq> [] \<Longrightarrow> \<not> P (hd (dropWhile P xs))"
  by (induction xs) auto

lemma length_dropWhile_less_Suc: "length (dropWhile P xs) < Suc (length xs)"
  by (simp add: length_dropWhile_le less_Suc_eq_le)

lemma takeWhile_all_append: "(\<And>x. x \<in> set xs \<Longrightarrow> P x) \<Longrightarrow> \<not> P y \<Longrightarrow>
    takeWhile P (xs @ y # ys) = xs"
  by (simp add: takeWhile_append2)

lemma dropWhile_all_append: "(\<And>x. x \<in> set xs \<Longrightarrow> P x) \<Longrightarrow> \<not> P y \<Longrightarrow>
    dropWhile P (xs @ y # ys) = y # ys"
  by (simp add: dropWhile_append2)

end
