(* ===== verification/Rust_Str.thy ===== *)
theory Rust_Str
  imports Prelude
begin

text \<open>
  The part of Rust's standard library that the program uses on strings. A \<^verbatim>\<open>str\<close> is a list
  of Unicode scalar values; its bytes are their UTF-8 encoding, so that \<^verbatim>\<open>as_bytes\<close>,
  \<^verbatim>\<open>len\<close> and \<^verbatim>\<open>String::from_utf8\<close> are functions with content and white space is what
  Unicode says it is.
\<close>

section \<open>Characters and literals\<close>

type_synonym rchar = nat
type_synonym rstr = "rchar list"

definition lit :: "string \<Rightarrow> rstr" where
  "lit s = map of_char s"

definition scalar :: "rchar \<Rightarrow> bool" where
  "scalar c \<longleftrightarrow> c < 0xD800 \<or> (0xE000 \<le> c \<and> c < 0x110000)"

definition is_str :: "rstr \<Rightarrow> bool" where
  "is_str s \<longleftrightarrow> list_all scalar s"

text \<open>\<^verbatim>\<open>char::is_whitespace\<close> (the Unicode property White\_Space) and \<^verbatim>\<open>char::is_control\<close>.\<close>

definition is_whitespace :: "rchar \<Rightarrow> bool" where
  "is_whitespace c \<longleftrightarrow> (9 \<le> c \<and> c \<le> 13) \<or> c = 32 \<or> c = 0x85 \<or> c = 0xA0 \<or> c = 0x1680
     \<or> (0x2000 \<le> c \<and> c \<le> 0x200A) \<or> c = 0x2028 \<or> c = 0x2029 \<or> c = 0x202F \<or> c = 0x205F \<or> c = 0x3000"

definition is_control :: "rchar \<Rightarrow> bool" where
  "is_control c \<longleftrightarrow> c < 32 \<or> (127 \<le> c \<and> c < 160)"

section \<open>UTF-8\<close>

definition utf8_char :: "rchar \<Rightarrow> nat list" where
  "utf8_char c =
     (if c < 0x80 then [c]
      else if c < 0x800 then [0xC0 + c div 64, 0x80 + c mod 64]
      else if c < 0x10000 then [0xE0 + c div 4096, 0x80 + c div 64 mod 64, 0x80 + c mod 64]
      else [0xF0 + c div 262144, 0x80 + c div 4096 mod 64, 0x80 + c div 64 mod 64, 0x80 + c mod 64])"

definition as_bytes :: "rstr \<Rightarrow> bytes" where
  "as_bytes s = map of_nat (concat (map utf8_char s))"

definition str_len :: "rstr \<Rightarrow> nat" where
  "str_len s = length (as_bytes s)"

definition cont :: "nat \<Rightarrow> bool" where
  "cont b \<longleftrightarrow> 0x80 \<le> b \<and> b < 0xC0"

text \<open>One scalar value from the front: the shortest form only, no surrogates, at most U+10FFFF.\<close>

fun utf8_next :: "nat list \<Rightarrow> (rchar \<times> nat list) option" where
  "utf8_next [] = None"
| "utf8_next (a # r) =
     (if a < 0x80 then Some (a, r)
      else if a < 0xC0 then None
      else if a < 0xE0 then
        (case r of b # r' \<Rightarrow>
           (let c = (a - 0xC0) * 64 + (b - 0x80)
            in if cont b \<and> 0x80 \<le> c then Some (c, r') else None)
         | _ \<Rightarrow> None)
      else if a < 0xF0 then
        (case r of b # b2 # r' \<Rightarrow>
           (let c = (a - 0xE0) * 4096 + (b - 0x80) * 64 + (b2 - 0x80)
            in if cont b \<and> cont b2 \<and> 0x800 \<le> c \<and> scalar c then Some (c, r') else None)
         | _ \<Rightarrow> None)
      else if a < 0xF8 then
        (case r of b # b2 # b3 # r' \<Rightarrow>
           (let c = (a - 0xF0) * 262144 + (b - 0x80) * 4096 + (b2 - 0x80) * 64 + (b3 - 0x80)
            in if cont b \<and> cont b2 \<and> cont b3 \<and> 0x10000 \<le> c \<and> scalar c then Some (c, r') else None)
         | _ \<Rightarrow> None)
      else None)"

lemma utf8_next_length: "utf8_next bs = Some (c, r) \<Longrightarrow> length r < length bs"
  by (cases bs) (auto simp: Let_def split: if_splits list.splits)

function utf8_decode :: "nat list \<Rightarrow> rstr option" where
  "utf8_decode bs =
     (if bs = [] then Some []
      else case utf8_next bs of None \<Rightarrow> None
           | Some (c, r) \<Rightarrow> map_option ((#) c) (utf8_decode r))"
  by pat_completeness auto
termination
  by (relation "measure length") (auto simp: utf8_next_length)

declare utf8_decode.simps [simp del]

definition from_utf8 :: "bytes \<Rightarrow> rstr option" where
  "from_utf8 bs = utf8_decode (map unat bs)"

section \<open>Operations on strings\<close>

definition trim_start :: "rstr \<Rightarrow> rstr" where
  "trim_start s = dropWhile is_whitespace s"

definition trim_end :: "rstr \<Rightarrow> rstr" where
  "trim_end s = rev (dropWhile is_whitespace (rev s))"

definition trim :: "rstr \<Rightarrow> rstr" where
  "trim s = trim_end (trim_start s)"

definition trim_end_matches :: "rchar \<Rightarrow> rstr \<Rightarrow> rstr" where
  "trim_end_matches c s = rev (dropWhile (\<lambda>d. d = c) (rev s))"

definition trim_start_matches :: "rchar \<Rightarrow> rstr \<Rightarrow> rstr" where
  "trim_start_matches c s = dropWhile (\<lambda>d. d = c) s"

fun strip_prefix :: "rstr \<Rightarrow> rstr \<Rightarrow> rstr option" where
  "strip_prefix [] s = Some s"
| "strip_prefix (p # ps) [] = None"
| "strip_prefix (p # ps) (c # cs) = (if p = c then strip_prefix ps cs else None)"

definition starts_with :: "rchar \<Rightarrow> rstr \<Rightarrow> bool" where
  "starts_with c s \<longleftrightarrow> (case s of [] \<Rightarrow> False | d # _ \<Rightarrow> d = c)"

text \<open>\<^verbatim>\<open>split_whitespace\<close>: the maximal runs of non-white-space characters.\<close>

function split_whitespace :: "rstr \<Rightarrow> rstr list" where
  "split_whitespace s =
     (case trim_start s of
        [] \<Rightarrow> []
      | c # cs \<Rightarrow> takeWhile (\<lambda>x. \<not> is_whitespace x) (c # cs)
                   # split_whitespace (dropWhile (\<lambda>x. \<not> is_whitespace x) (c # cs)))"
  by pat_completeness auto
termination
proof (relation "measure length", goal_cases)
  case (2 s c cs)
  then have "dropWhile is_whitespace s = c # cs" by (simp add: trim_start_def)
  then have "\<not> is_whitespace c" and "length (c # cs) \<le> length s"
    using hd_dropWhile_not [of is_whitespace s] length_dropWhile_le [of is_whitespace s] by auto
  then show ?case
    using length_dropWhile_le [of "\<lambda>x. \<not> is_whitespace x" cs] by simp
qed simp

declare split_whitespace.simps [simp del]

text \<open>
  \<^verbatim>\<open>lines\<close>: pieces that end in a line feed lose it, and a carriage return before it; a last
  piece without a line feed is kept as it is, and there is no empty last piece.
\<close>

definition strip_cr :: "rstr \<Rightarrow> rstr" where
  "strip_cr l = (if l \<noteq> [] \<and> last l = 13 then butlast l else l)"

function str_lines :: "rstr \<Rightarrow> rstr list" where
  "str_lines s =
     (if s = [] then []
      else case dropWhile (\<lambda>c. c \<noteq> 10) s of
             [] \<Rightarrow> [s]
           | _ # r \<Rightarrow> strip_cr (takeWhile (\<lambda>c. c \<noteq> 10) s) # str_lines r)"
  by pat_completeness auto
termination
proof (relation "measure length", goal_cases)
  case (2 s x r)
  then have "length (x # r) \<le> length s"
    using length_dropWhile_le [of "\<lambda>c. c \<noteq> 10" s] by simp
  then show ?case by simp
qed simp

declare str_lines.simps [simp del]

text \<open>\<^verbatim>\<open>split_once\<close> at the first, \<^verbatim>\<open>rsplit_once\<close> at the last character that matches.\<close>

definition split_once :: "(rchar \<Rightarrow> bool) \<Rightarrow> rstr \<Rightarrow> (rstr \<times> rstr) option" where
  "split_once P s =
     (case dropWhile (\<lambda>c. \<not> P c) s of [] \<Rightarrow> None
      | _ # r \<Rightarrow> Some (takeWhile (\<lambda>c. \<not> P c) s, r))"

definition rsplit_once :: "rchar \<Rightarrow> rstr \<Rightarrow> (rstr \<times> rstr) option" where
  "rsplit_once c s =
     (case dropWhile (\<lambda>d. d \<noteq> c) (rev s) of [] \<Rightarrow> None
      | _ # r \<Rightarrow> Some (rev r, rev (takeWhile (\<lambda>d. d \<noteq> c) (rev s))))"

definition to_ascii_lowercase :: "rchar \<Rightarrow> rchar" where
  "to_ascii_lowercase c = (if 65 \<le> c \<and> c \<le> 90 then c + 32 else c)"

definition eq_ignore_ascii_case :: "rstr \<Rightarrow> rstr \<Rightarrow> bool" where
  "eq_ignore_ascii_case a b \<longleftrightarrow> map to_ascii_lowercase a = map to_ascii_lowercase b"

text \<open>
  \<^verbatim>\<open>str::parse\<close> for an unsigned type of \<open>n\<close> bits: an optional plus sign, at least one
  decimal digit, no overflow.
\<close>

definition is_digit :: "rchar \<Rightarrow> bool" where
  "is_digit c \<longleftrightarrow> 48 \<le> c \<and> c \<le> 57"

definition digits_value :: "rstr \<Rightarrow> nat" where
  "digits_value = foldl (\<lambda>n c. n * 10 + (c - 48)) 0"

definition parse_unsigned :: "nat \<Rightarrow> rstr \<Rightarrow> nat option" where
  "parse_unsigned n s =
     (let ds = (case s of [] \<Rightarrow> [] | c # cs \<Rightarrow> if c = 43 then cs else s)
      in if ds \<noteq> [] \<and> list_all is_digit ds \<and> digits_value ds < 2 ^ n
         then Some (digits_value ds) else None)"

section \<open>UTF-8 decoding inverts encoding\<close>

lemma split_base64: "(c div 4096) * 64 + c div 64 mod 64 = c div (64::nat)"
  using div_mult_mod_eq [of "c div 64" 64] by (simp add: div_mult2_eq [of c 64 64, simplified, symmetric])

lemma split_base4096: "(c div 262144) * 64 + c div 4096 mod 64 = c div (4096::nat)"
  using div_mult_mod_eq [of "c div 4096" 64]
  by (simp add: div_mult2_eq [of c 4096 64, simplified, symmetric])

lemma utf8_next_char:
  assumes "scalar c"
  shows "utf8_next (utf8_char c @ r) = Some (c, r)"
proof -
  have c: "c < 0x110000" using assms by (auto simp: scalar_def)
  consider "c < 0x80" | "0x80 \<le> c" "c < 0x800" | "0x800 \<le> c" "c < 0x10000" | "0x10000 \<le> c"
    by linarith
  then show ?thesis
  proof cases
    case 2
    then have q: "c div 64 < 32" by auto
    have "(c div 64) * 64 + c mod 64 = c" by auto
    with 2 show ?thesis by (simp add: q utf8_char_def cont_def Let_def)
  next
    case 3
    then have q: "c div 4096 < 16" by auto
    have "(c div 4096) * 4096 + (c div 64 mod 64) * 64 + c mod 64 = c"
      using split_base64 [of c] div_mult_mod_eq [of c 64] by linarith
    with 3 assms show ?thesis by (simp add: q utf8_char_def cont_def Let_def)
  next
    case 4
    from c have q: "c div 262144 < 8" by auto
    have "(c div 262144) * 262144 + (c div 4096 mod 64) * 4096 + (c div 64 mod 64) * 64 + c mod 64 = c"
      using split_base64 [of c] split_base4096 [of c] div_mult_mod_eq [of c 64] by linarith
    with 4 assms show ?thesis by (simp add: q utf8_char_def cont_def Let_def)
  qed (simp add: utf8_char_def)
qed

lemma utf8_char_nonempty [simp]: "utf8_char c \<noteq> []"
  by (simp add: utf8_char_def)

lemma utf8_char_byte: "scalar c \<Longrightarrow> b \<in> set (utf8_char c) \<Longrightarrow> b < 256"
  by (auto simp: utf8_char_def scalar_def split: if_splits)

lemma utf8_decode_encode: "is_str s \<Longrightarrow> utf8_decode (concat (map utf8_char s)) = Some s"
  by (induction s) (simp_all add: utf8_decode.simps is_str_def utf8_next_char)

lemma from_utf8_as_bytes [simp]:
  assumes "is_str s"
  shows "from_utf8 (as_bytes s) = Some s"
proof -
  have "map unat (map (of_nat :: nat \<Rightarrow> u8) bs) = bs" if "\<forall>b \<in> set bs. b < 256" for bs
    using that by (induction bs) (simp_all add: unat_of_nat)
  moreover have "\<forall>b \<in> set (concat (map utf8_char s)). b < 256"
    using assms utf8_char_byte by (auto simp: is_str_def list_all_iff)
  ultimately show ?thesis
    using assms by (simp add: from_utf8_def as_bytes_def utf8_decode_encode del: map_map)
qed

lemma as_bytes_inject: "is_str s \<Longrightarrow> is_str t \<Longrightarrow> as_bytes s = as_bytes t \<longleftrightarrow> s = t"
  by (metis from_utf8_as_bytes option.inject)

lemma as_bytes_append [simp, str_simps]: "as_bytes (s @ t) = as_bytes s @ as_bytes t"
  by (simp add: as_bytes_def)

lemma as_bytes_Nil [simp, str_simps]: "as_bytes [] = []"
  by (simp add: as_bytes_def)

lemma as_bytes_eq_Nil [simp]: "as_bytes s = [] \<longleftrightarrow> s = []"
  by (cases s) (simp_all add: as_bytes_def)

lemma is_str_append [simp]: "is_str (s @ t) \<longleftrightarrow> is_str s \<and> is_str t"
  by (simp add: is_str_def)

lemma is_str_Nil [simp]: "is_str []"
  by (simp add: is_str_def)

lemma is_str_Cons [simp]: "is_str (c # s) \<longleftrightarrow> scalar c \<and> is_str s"
  by (simp add: is_str_def)

section \<open>Trimming and splitting\<close>

lemma trim_start_idem [simp, str_simps]: "trim_start (trim_start s) = trim_start s"
  unfolding trim_start_def by (metis dropWhile_id_hd hd_dropWhile_not)

lemma trim_start_id: "s = [] \<or> \<not> is_whitespace (hd s) \<Longrightarrow> trim_start s = s"
  by (simp add: trim_start_def dropWhile_id_hd)

lemma trim_end_id: "s = [] \<or> \<not> is_whitespace (last s) \<Longrightarrow> trim_end s = s"
  by (auto simp: trim_end_def dropWhile_id_hd hd_rev)

lemma trim_id: "s = [] \<or> (\<not> is_whitespace (hd s) \<and> \<not> is_whitespace (last s)) \<Longrightarrow> trim s = s"
  by (auto simp: trim_def trim_start_id trim_end_id)

lemma trim_end_split: "\<exists>w. s = trim_end s @ w \<and> (\<forall>c \<in> set w. is_whitespace c)"
proof -
  have "rev s = takeWhile is_whitespace (rev s) @ dropWhile is_whitespace (rev s)" by simp
  then have "s = trim_end s @ rev (takeWhile is_whitespace (rev s))"
    unfolding trim_end_def by (metis rev_append rev_rev_ident)
  moreover have "\<forall>c \<in> set (rev (takeWhile is_whitespace (rev s))). is_whitespace c"
    by (auto dest: set_takeWhileD)
  ultimately show ?thesis by blast
qed

lemma trim_start_split: "\<exists>w. s = w @ trim_start s \<and> (\<forall>c \<in> set w. is_whitespace c)"
  unfolding trim_start_def
  by (metis set_takeWhileD takeWhile_dropWhile_id)

lemma hd_trim_start: "trim_start s \<noteq> [] \<Longrightarrow> \<not> is_whitespace (hd (trim_start s))"
  unfolding trim_start_def by (rule hd_dropWhile_not)

lemma last_trim_end: "trim_end s \<noteq> [] \<Longrightarrow> \<not> is_whitespace (last (trim_end s))"
  using hd_dropWhile_not [of is_whitespace "rev s"] by (simp add: trim_end_def last_rev)

lemma trim_end_eq_Nil [simp]: "trim_end s = [] \<longleftrightarrow> (\<forall>c \<in> set s. is_whitespace c)"
  by (simp add: trim_end_def)

lemma trim_start_eq_Nil [simp]: "trim_start s = [] \<longleftrightarrow> (\<forall>c \<in> set s. is_whitespace c)"
  by (simp add: trim_start_def)

lemma trim_eq_Nil [simp]: "trim s = [] \<longleftrightarrow> (\<forall>c \<in> set s. is_whitespace c)"
proof -
  obtain w where "s = w @ trim_start s" "\<forall>c \<in> set w. is_whitespace c"
    using trim_start_split by blast
  then show ?thesis unfolding trim_def by (metis Un_iff set_append trim_end_eq_Nil)
qed

lemma hd_trim: "trim s \<noteq> [] \<Longrightarrow> \<not> is_whitespace (hd (trim s))"
proof -
  assume ne: "trim s \<noteq> []"
  obtain w where w: "trim_start s = trim s @ w" using trim_end_split unfolding trim_def by blast
  with ne have "hd (trim_start s) = hd (trim s)" "trim_start s \<noteq> []" by auto
  then show ?thesis using hd_trim_start by metis
qed

lemma last_trim: "trim s \<noteq> [] \<Longrightarrow> \<not> is_whitespace (last (trim s))"
  unfolding trim_def by (rule last_trim_end)

lemma set_trim: "set (trim s) \<subseteq> set s"
proof -
  have "set (trim s) \<subseteq> set (trim_start s)"
    unfolding trim_def by (metis Un_upper1 set_append trim_end_split)
  also have "\<dots> \<subseteq> set s"
    by (auto simp: trim_start_def dest: set_dropWhileD)
  finally show ?thesis .
qed

lemma trim_idem [simp, str_simps]: "trim (trim s) = trim s"
  by (cases "trim s = []") (simp_all add: trim_id hd_trim last_trim del: trim_eq_Nil)

lemma trim_start_trim [simp, str_simps]: "trim_start (trim s) = trim s"
  by (cases "trim s = []") (simp_all add: trim_start_id hd_trim del: trim_eq_Nil)

lemma trim_end_append: "x \<noteq> [] \<Longrightarrow> \<not> is_whitespace (last x) \<Longrightarrow> trim_end (x @ y) = x @ trim_end y"
proof (cases "\<forall>c \<in> set y. is_whitespace c")
  case True
  assume "x \<noteq> []" "\<not> is_whitespace (last x)"
  then have "dropWhile is_whitespace (rev x) = rev x" by (intro dropWhile_id_hd) (simp add: hd_rev)
  moreover have "dropWhile is_whitespace (rev y @ rev x) = dropWhile is_whitespace (rev x)"
    using True by (intro dropWhile_append2) auto
  moreover have "dropWhile is_whitespace (rev y) = []" using True by simp
  ultimately show ?thesis by (simp add: trim_end_def)
next
  case False
  then show ?thesis by (auto simp: trim_end_def dropWhile_append1)
qed

lemma trim_trim_end [simp]: "trim (trim_end s) = trim s"
proof (cases "trim_start s = []")
  case False
  obtain w where w: "s = w @ trim_start s" "\<forall>c \<in> set w. is_whitespace c" using trim_start_split by blast
  obtain x y where xy: "trim_start s = x # y" "\<not> is_whitespace x"
    using False hd_trim_start [OF False] by (cases "trim_start s") (auto simp del: trim_start_eq_Nil)
  have e: "trim_end (x # y) = x # trim_end y"
    using trim_end_append [of "[x]" y] xy(2) by simp
  have "trim_end s = w @ x # trim_end y"
  proof -
    have "trim_end s = trim_end ((w @ [x]) @ y)" using w(1) xy(1) by (metis append_Cons append_Nil append_assoc)
    also have "\<dots> = (w @ [x]) @ trim_end y" using xy(2) by (intro trim_end_append) simp_all
    finally show ?thesis by simp
  qed
  then have "trim_start (trim_end s) = x # trim_end y"
    using w(2) xy(2) by (simp add: trim_start_def dropWhile_append2)
  moreover have "trim_end (trim_end y) = trim_end y"
    by (rule trim_end_id) (use last_trim_end in blast)
  ultimately show ?thesis
    using e xy trim_end_append [of "[x]" "trim_end y"] by (simp add: trim_def)
next
  case True
  then have "trim_end s = []" "trim s = []" by simp_all
  then show ?thesis by (simp del: trim_end_eq_Nil trim_eq_Nil add: trim_id)
qed

lemma split_whitespace_Nil [simp]: "split_whitespace [] = []"
  by (simp add: split_whitespace.simps trim_start_def)

lemma split_whitespace_trim_start [simp, str_simps]:
  "split_whitespace (trim_start s) = split_whitespace s"
  by (subst (1 2) split_whitespace.simps) simp

lemma split_whitespace_ws_append:
  "\<forall>c \<in> set w. is_whitespace c \<Longrightarrow> split_whitespace (s @ w) = split_whitespace s"
proof (induction s rule: split_whitespace.induct)
  case (1 s)
  show ?case
  proof (cases "trim_start s")
    case Nil
    then have "trim_start (s @ w) = []" using "1.prems" by auto
    with Nil show ?thesis
      by (subst (1 2) split_whitespace.simps) (simp del: trim_start_eq_Nil)
  next
    case (Cons c cs)
    let ?P = "\<lambda>x. \<not> is_whitespace x"
    have ts: "trim_start (s @ w) = c # cs @ w"
      using Cons unfolding trim_start_def
      by (metis append_Cons dropWhile_append dropWhile_eq_Nil_conv list.distinct(1))
    have nc: "?P c" using hd_trim_start [of s] Cons by simp
    have tk: "takeWhile ?P (cs @ w) = takeWhile ?P cs"
    proof (cases "\<forall>x \<in> set cs. ?P x")
      case True
      then have "takeWhile ?P (cs @ w) = cs @ takeWhile ?P w" by (simp add: takeWhile_append2)
      also have "takeWhile ?P w = []" using "1.prems" by (cases w) auto
      finally show ?thesis using True by (simp add: takeWhile_eq_all_conv [THEN iffD2])
    qed (auto simp: takeWhile_append1)
    have dr: "dropWhile ?P (cs @ w) = dropWhile ?P cs @ w"
    proof (cases "\<forall>x \<in> set cs. ?P x")
      case True
      have "dropWhile ?P w = w" using "1.prems" by (cases w) auto
      with True show ?thesis by (simp add: dropWhile_append2 dropWhile_eq_Nil_conv [THEN iffD2])
    qed (auto simp: dropWhile_append1)
    have "split_whitespace (dropWhile ?P (c # cs) @ w) = split_whitespace (dropWhile ?P (c # cs))"
      using "1.IH" [OF Cons] "1.prems" by blast
    then show ?thesis
      by (subst (1 2) split_whitespace.simps) (simp add: ts Cons nc tk dr)
  qed
qed

lemma split_whitespace_trim [simp, str_simps]: "split_whitespace (trim s) = split_whitespace s"
proof -
  obtain w where "trim_start s = trim s @ w" "\<forall>c \<in> set w. is_whitespace c"
    using trim_end_split unfolding trim_def by blast
  then have "split_whitespace (trim_start s) = split_whitespace (trim s)"
    by (simp add: split_whitespace_ws_append)
  then show ?thesis by simp
qed

text \<open>Splitting a string that starts with a field: the field, then what follows it.\<close>

lemma split_whitespace_field:
  assumes "a \<noteq> []" and "\<forall>c \<in> set a. \<not> is_whitespace c"
    and "r = [] \<or> is_whitespace (hd r)"
  shows "split_whitespace (a @ r) = a # split_whitespace r"
proof -
  let ?P = "\<lambda>x. \<not> is_whitespace x"
  obtain c cs where a: "a = c # cs" using assms(1) by (cases a) auto
  have ts: "trim_start (a @ r) = a @ r" using assms(2) a by (simp add: trim_start_id)
  have "takeWhile ?P (a @ r) = a" "dropWhile ?P (a @ r) = r"
    using assms(2,3) by (cases r; simp add: takeWhile_append2 dropWhile_append2)+
  with ts a show ?thesis
    by (subst split_whitespace.simps) (simp add: list.case_eq_if)
qed

lemma split_whitespace_space [simp]: "split_whitespace (32 # s) = split_whitespace s"
proof -
  have "trim_start (32 # s) = trim_start s" by (simp add: trim_start_def is_whitespace_def)
  then show ?thesis by (subst (1 2) split_whitespace.simps) simp
qed

lemma split_whitespace_fields:
  "f \<in> set (split_whitespace s) \<Longrightarrow> f \<noteq> [] \<and> set f \<subseteq> set s \<and> (\<forall>c \<in> set f. \<not> is_whitespace c)"
proof (induction s rule: split_whitespace.induct)
  case (1 s)
  show ?case
  proof (cases "trim_start s")
    case Nil
    with "1.prems" show ?thesis by (subst (asm) split_whitespace.simps) simp
  next
    case (Cons c cs)
    let ?P = "\<lambda>x. \<not> is_whitespace x"
    have sub: "set (c # cs) \<subseteq> set s" using Cons set_dropWhileD unfolding trim_start_def by (metis subsetI)
    have nc: "?P c" using hd_trim_start [of s] Cons by simp
    from "1.prems" Cons consider "f = takeWhile ?P (c # cs)"
      | "f \<in> set (split_whitespace (dropWhile ?P (c # cs)))"
      by (subst (asm) split_whitespace.simps) auto
    then show ?thesis
    proof cases
      case 1
      then show ?thesis using nc sub by (auto dest: set_takeWhileD)
    next
      case 2
      then show ?thesis using "1.IH" [OF Cons] sub by (meson dual_order.trans set_dropWhileD subsetI)
    qed
  qed
qed

lemma split_whitespace_Nil_iff: "split_whitespace s = [] \<longleftrightarrow> (\<forall>c \<in> set s. is_whitespace c)"
  by (subst split_whitespace.simps) (auto split: list.splits simp flip: trim_start_eq_Nil)

lemma strip_prefix_append [simp]: "strip_prefix p (p @ s) = Some s"
  by (induction p) auto

lemma strip_prefix_self [simp]: "strip_prefix p p = Some []"
  by (induction p) auto

lemma strip_prefix_Some: "strip_prefix p s = Some r \<longleftrightarrow> s = p @ r"
  by (induction p s rule: strip_prefix.induct) auto

section \<open>Lines\<close>

lemma str_lines_Nil [simp]: "str_lines [] = []"
  by (simp add: str_lines.simps)

lemma str_lines_step:
  assumes "10 \<notin> set l"
  shows "str_lines (l @ 10 # r) = strip_cr l # str_lines r"
proof -
  have "takeWhile (\<lambda>c. c \<noteq> 10) (l @ 10 # r) = l" "dropWhile (\<lambda>c. c \<noteq> 10) (l @ 10 # r) = 10 # r"
    using assms by (auto intro!: takeWhile_all_append dropWhile_all_append)
  then show ?thesis by (subst str_lines.simps) simp
qed

lemma str_lines_last: "10 \<notin> set l \<Longrightarrow> l \<noteq> [] \<Longrightarrow> str_lines l = [l]"
  by (subst str_lines.simps) (auto simp: list.case_eq_if)

lemma strip_cr_id: "13 \<notin> set l \<Longrightarrow> strip_cr l = l"
  unfolding strip_cr_def by (metis last_in_set)

lemma str_lines_concat:
  "\<forall>l \<in> set ls. 10 \<notin> set l \<and> 13 \<notin> set l \<Longrightarrow> str_lines (concat (map (\<lambda>l. l @ [10]) ls) @ t) = ls @ str_lines t"
  by (induction ls) (simp_all add: str_lines_step strip_cr_id)

section \<open>ASCII\<close>

lemma utf8_char_ascii [simp]: "c < 128 \<Longrightarrow> utf8_char c = [c]"
  by (simp add: utf8_char_def)

lemma as_bytes_ascii: "\<forall>c \<in> set s. c < 128 \<Longrightarrow> as_bytes s = map of_nat s"
  by (induction s) (simp_all add: as_bytes_def)

text \<open>A character beyond ASCII always brings a continuation byte along.\<close>

lemma utf8_char_non_ascii: "128 \<le> c \<Longrightarrow> \<exists>b \<in> set (utf8_char c). 128 \<le> b \<and> b < 192"
  unfolding utf8_char_def by (auto intro: mod_less_divisor [THEN order.strict_trans2])

lemma all_ascii_bytes:
  assumes "\<forall>b \<in> set (as_bytes s). unat b < 128"
  shows "\<forall>c \<in> set s. c < 128"
proof (rule ccontr)
  assume "\<not> (\<forall>c \<in> set s. c < 128)"
  then obtain c where c: "c \<in> set s" "128 \<le> c" by (auto simp: not_less)
  from utf8_char_non_ascii [OF c(2)] obtain b where b: "b \<in> set (utf8_char c)" "128 \<le> b" "b < 192"
    by blast
  then have "unat (of_nat b :: u8) = b" by (simp add: unat_of_nat)
  moreover have "of_nat b \<in> set (as_bytes s)" using b c by (auto simp: as_bytes_def)
  ultimately show False using assms b(2) by auto
qed

text \<open>What the simplifier needs to run the string operations on a concrete string.\<close>

section \<open>Fields and suffixes\<close>

text \<open>A field of a text: a maximal run of characters that are no white space.\<close>

definition field_of :: "rstr \<Rightarrow> rstr \<Rightarrow> bool" where
  "field_of p s \<longleftrightarrow> p \<noteq> [] \<and> (\<forall>x \<in> set p. \<not> is_whitespace x)
     \<and> (\<exists>b c. s = b @ p @ c \<and> (b = [] \<or> is_whitespace (last b)) \<and> (c = [] \<or> is_whitespace (hd c)))"

lemma field_of_step:
  assumes w: "\<forall>x \<in> set w. is_whitespace x" and a: "a \<noteq> []" "\<forall>x \<in> set a. \<not> is_whitespace x"
    and r: "r = [] \<or> is_whitespace (hd r)"
  shows "field_of p (w @ a @ r) \<longleftrightarrow> p = a \<or> field_of p r"
proof
  assume "field_of p (w @ a @ r)"
  then obtain b c where p: "p \<noteq> []" "\<forall>x \<in> set p. \<not> is_whitespace x" and eq: "w @ a @ r = b @ p @ c"
    and bc: "b = [] \<or> is_whitespace (last b)" "c = [] \<or> is_whitespace (hd c)" by (auto simp: field_of_def)
  have run: "a = p" if "a @ r = p @ c"
  proof -
    have "takeWhile (\<lambda>x. \<not> is_whitespace x) (y @ z) = y"
      if "\<forall>x \<in> set y. \<not> is_whitespace x" "z = [] \<or> is_whitespace (hd z)" for y z
      using that by (cases z) (simp_all add: takeWhile_append2)
    from this [OF a(2) r] this [OF p(2) bc(2)] that show ?thesis by simp
  qed
  from eq consider us where "w = b @ us" "us @ a @ r = p @ c" | us where "b = w @ us" "a @ r = us @ p @ c"
    using append_eq_append_conv2 [of w "a @ r" b "p @ c"] by metis
  then show "p = a \<or> field_of p r"
  proof cases
    case (1 us)
    with w p have "us = []" by (cases us; cases p) auto
    with 1 run show ?thesis by simp
  next
    case (2 us)
    show ?thesis
    proof (cases "us = []")
      case False
      with 2 bc(1) have us: "is_whitespace (last us)" by simp
      from 2(2) consider vs where "a = us @ vs" | vs where "us = a @ vs" "r = vs @ p @ c"
        using append_eq_append_conv2 [of a r us "p @ c"] by metis
      then show ?thesis
      proof cases
        case 1
        with a(2) us False show ?thesis by (metis UnCI last_in_set set_append)
      next
        case (2 vs)
        with us have "vs = [] \<or> is_whitespace (last vs)" by (cases "vs = []") simp_all
        with p bc(2) 2(2) show ?thesis by (auto simp: field_of_def)
      qed
    qed (use 2 run in simp)
  qed
next
  assume "p = a \<or> field_of p r"
  then show "field_of p (w @ a @ r)"
  proof
    assume "p = a"
    moreover have "w = [] \<or> is_whitespace (last w)" using w last_in_set by blast
    ultimately show ?thesis using a r unfolding field_of_def by blast
  next
    assume "field_of p r"
    then obtain b c where p: "p \<noteq> []" "\<forall>x \<in> set p. \<not> is_whitespace x" and r': "r = b @ p @ c"
      and bc: "b = [] \<or> is_whitespace (last b)" "c = [] \<or> is_whitespace (hd c)" by (auto simp: field_of_def)
    with r have "b \<noteq> []" by (cases p) auto
    with bc(1) have "is_whitespace (last (w @ a @ b))" by simp
    with p bc(2) r' show ?thesis unfolding field_of_def by (intro conjI exI [of _ "w @ a @ b"] exI [of _ c]) auto
  qed
qed

lemma split_whitespace_iff: "p \<in> set (split_whitespace s) \<longleftrightarrow> field_of p s"
proof (induction s rule: split_whitespace.induct)
  case (1 s)
  obtain w where w: "s = w @ trim_start s" "\<forall>x \<in> set w. is_whitespace x" using trim_start_split by blast
  show ?case
  proof (cases "trim_start s")
    case Nil
    with w have "\<forall>x \<in> set s. is_whitespace x" by simp
    then have "\<not> field_of p s" by (cases p) (auto simp: field_of_def)
    moreover have "split_whitespace s = []" by (subst split_whitespace.simps) (simp only: Nil list.case)
    ultimately show ?thesis by simp
  next
    case (Cons c cs)
    let ?P = "\<lambda>x. \<not> is_whitespace x"
    have c: "?P c" using hd_trim_start [of s] Cons by simp
    have "dropWhile ?P (c # cs) = [] \<or> is_whitespace (hd (dropWhile ?P (c # cs)))"
      using hd_dropWhile [of ?P "c # cs"] by blast
    moreover have "takeWhile ?P (c # cs) \<noteq> []" "\<forall>x \<in> set (takeWhile ?P (c # cs)). ?P x"
      using c by (auto dest: set_takeWhileD)
    moreover have "s = w @ takeWhile ?P (c # cs) @ dropWhile ?P (c # cs)"
      using w(1) unfolding Cons takeWhile_dropWhile_id .
    ultimately have "field_of p s \<longleftrightarrow> p = takeWhile ?P (c # cs) \<or> field_of p (dropWhile ?P (c # cs))"
      by (metis field_of_step [OF w(2)])
    with "1.IH" [OF Cons] Cons show ?thesis by (subst split_whitespace.simps) auto
  qed
qed

lemma trim_end_matches_split: "\<exists>n. s = trim_end_matches c s @ replicate n c"
proof -
  let ?n = "length (takeWhile (\<lambda>d. d = c) (rev s))"
  have "takeWhile (\<lambda>d. d = c) (rev s) = replicate ?n c"
    by (intro replicate_eqI refl) (auto dest: set_takeWhileD)
  moreover have "rev s = takeWhile (\<lambda>d. d = c) (rev s) @ rev (trim_end_matches c s)"
    by (simp add: trim_end_matches_def)
  ultimately have "rev s = replicate ?n c @ rev (trim_end_matches c s)" by metis
  then have "s = rev (replicate ?n c @ rev (trim_end_matches c s))" by (metis rev_rev_ident)
  then show ?thesis by auto
qed

lemma trim_end_matches_replicate: "trim_end_matches c (x @ replicate n c) = trim_end_matches c x"
proof -
  have "dropWhile (\<lambda>d. d = c) (replicate n c @ y) = dropWhile (\<lambda>d. d = c) y" for y by (induction n) simp_all
  then show ?thesis by (simp add: trim_end_matches_def)
qed

text \<open>Two texts are the same without the characters \<open>c\<close> at their ends.\<close>

lemma trim_end_matches_eq_iff:
  "trim_end_matches c s = trim_end_matches c t \<longleftrightarrow> (\<exists>x m n. s = x @ replicate m c \<and> t = x @ replicate n c)"
  using trim_end_matches_split [of s c] trim_end_matches_split [of t c] trim_end_matches_replicate [of c] by metis

lemmas str_eval = lit_def is_control_def is_whitespace_def trim_def trim_start_def trim_end_def
  split_whitespace.simps str_lines.simps strip_cr_def starts_with_def as_bytes_def str_len_def
  split_once_def rsplit_once_def trim_end_matches_def trim_start_matches_def
  eq_ignore_ascii_case_def to_ascii_lowercase_def

end
