(* ===== verification/Errors.thy ===== *)
theory Errors
  imports Rust_Str
begin

text \<open>
  The crate's error type (\<^verbatim>\<open>src/errors.rs\<close>): \<open>error\<close>, the reasons a
  \<^verbatim>\<open>TrustedUserCAKeys\<close> entry is rejected, and the \<^verbatim>\<open>Display\<close> texts that reach a peer.
\<close>

text \<open>
  \<^verbatim>\<open>std::io::Error\<close>, by the kind the code can tell apart; every other operating-system
  error is \<open>OsError\<close> with its number.
\<close>

datatype io_kind =
    NotFound | AlreadyExists | NotADirectory | IsADirectory | FilesystemLoop
  | AddrInUse | InvalidData | InvalidInput | UnexpectedEof | WriteZero | OsError nat

datatype trusted_ca_error =
    Empty | Malformed | DisallowedAlgorithm | InvalidEncoding | IllegalCharacter

datatype error =
    Io io_kind
  | UnexpectedSymlink
  | InsecureOwnership
  | InsecurePermissions
  | InvalidPath
  | NotRoot
  | InvalidTrustedCa trusted_ca_error
  | HelperUnavailable
  | HelperProtocol
  | HelperUnauthenticated
  | PeerCredUnavailable
  | SshdValidationFailed
  | SshdReloadFailed
  | SshdInactive

fun trusted_ca_error_display :: "trusted_ca_error \<Rightarrow> rstr" where
  "trusted_ca_error_display Empty = lit ''entry is empty''"
| "trusted_ca_error_display Malformed = lit ''entry is malformed''"
| "trusted_ca_error_display DisallowedAlgorithm = lit ''key algorithm is not allowed''"
| "trusted_ca_error_display InvalidEncoding = lit ''key data is not valid base64''"
| "trusted_ca_error_display IllegalCharacter = lit ''entry contains illegal characters''"

fun error_display :: "error \<Rightarrow> rstr" where
  "error_display (Io _) = lit ''filesystem operation failed''"
| "error_display UnexpectedSymlink = lit ''path failed security validation: unexpected symlink''"
| "error_display InsecureOwnership = lit ''path failed security validation: insecure ownership''"
| "error_display InsecurePermissions = lit ''path failed security validation: insecure permissions''"
| "error_display InvalidPath = lit ''path failed security validation: invalid path''"
| "error_display NotRoot = lit ''insufficient privileges: root is required''"
| "error_display (InvalidTrustedCa r) =
     lit ''invalid TrustedUserCAKeys entry: '' @ trusted_ca_error_display r"
| "error_display HelperUnavailable = lit ''privileged helper socket is unavailable''"
| "error_display HelperProtocol = lit ''helper protocol error''"
| "error_display HelperUnauthenticated = lit ''helper rejected the request: unauthenticated''"
| "error_display PeerCredUnavailable = lit ''could not read socket peer credentials''"
| "error_display SshdValidationFailed = lit ''sshd configuration validation failed''"
| "error_display SshdReloadFailed = lit ''sshd reload failed''"
| "error_display SshdInactive = lit ''sshd is not active''"

text \<open>No message carries a path separator, whatever the error was caused by.\<close>

lemma trusted_ca_error_display_no_slash [simp]: "47 \<notin> set (trusted_ca_error_display r)"
  by (cases r) (simp_all add: lit_def)

lemma error_display_no_slash [simp]: "47 \<notin> set (error_display e)"
  by (cases e) (simp_all add: lit_def del: trusted_ca_error_display.simps)

end
