(* ===== verification/Fs.thy ===== *)
theory Fs
  imports Errors
begin

text \<open>
  The part of \<^verbatim>\<open>std::fs\<close>, \<^verbatim>\<open>std::path\<close> and the operating system under it that the helper
  uses: a file system with directories, symbolic links, sockets, owners and permission bits;
  path resolution with the kernel's limit on links; and one operation per call the crate
  makes. Every call can fail: \<open>fault\<close> names, for each call number, the operating-system error
  that strikes there. Every call takes time: \<open>latency\<close> says how many milliseconds. The \<^verbatim>\<open>tempfile\<close>
  crate is a parameter (\<open>tmp_name\<close>, the name it picks at each call). The helper runs as root, so no
  call is refused for lack of permission by itself. Pipes (FIFOs) and device nodes are left out: a
  host of this theory has none, so no theorem speaks of reading one at a path the helper uses.
\<close>

section \<open>Paths\<close>

datatype comp = RootDir | CurDir | ParentDir | Normal rstr

type_synonym path = "comp list"

fun split_on :: "rchar \<Rightarrow> rstr \<Rightarrow> rstr list" where
  "split_on c [] = [[]]"
| "split_on c (x # xs) =
     (if x = c then [] # split_on c xs
      else case split_on c xs of [] \<Rightarrow> [[x]] | p # ps \<Rightarrow> (x # p) # ps)"

definition piece_comp :: "rstr \<Rightarrow> comp option" where
  "piece_comp p =
     (if p = [] \<or> p = [46] then None else if p = [46, 46] then Some ParentDir else Some (Normal p))"

text \<open>\<^verbatim>\<open>Path::components\<close>: empty pieces and dots go, except a dot in front of a relative path.\<close>

definition components :: "rstr \<Rightarrow> path" where
  "components s =
     (if starts_with 47 s then RootDir # List.map_filter piece_comp (split_on 47 s)
      else if hd (split_on 47 s) = [46] then CurDir # List.map_filter piece_comp (split_on 47 s)
      else List.map_filter piece_comp (split_on 47 s))"

text \<open>\<^verbatim>\<open>Path::parent\<close>; the empty path is the parent of a bare file name.\<close>

definition parent :: "path \<Rightarrow> path option" where
  "parent p = (if p = [] \<or> last p = RootDir then None else Some (butlast p))"

section \<open>File systems\<close>

datatype fkind = Regular bytes | Directory | Link rstr | Socket

record inode =
  kind :: fkind
  perm :: u32
  owner :: u32
  group :: u32

type_synonym loc = "rstr list"
type_synonym fs = "loc \<Rightarrow> inode option"

text \<open>
  Resolution of a path from a directory. A symbolic link is followed in the middle of a path
  always, at its end when \<open>follow\<close> holds; \<open>k\<close> links may be followed before the kernel gives
  up. The last component need not exist.
\<close>

fun walk :: "fs \<Rightarrow> bool \<Rightarrow> nat \<Rightarrow> loc \<Rightarrow> path \<Rightarrow> io_kind + loc" where
  "walk f follow k cur [] = Inr cur"
| "walk f follow k cur (RootDir # cs) = walk f follow k [] cs"
| "walk f follow k cur (CurDir # cs) = walk f follow k cur cs"
| "walk f follow k cur (ParentDir # cs) = walk f follow k (butlast cur) cs"
| "walk f follow k cur (Normal n # cs) =
     (case f (cur @ [n]) of
        None \<Rightarrow> if cs = [] then Inr (cur @ [n]) else Inl NotFound
      | Some i \<Rightarrow>
          (case kind i of
             Directory \<Rightarrow> walk f follow k (cur @ [n]) cs
           | Link t \<Rightarrow>
               if cs = [] \<and> \<not> follow then Inr (cur @ [n])
               else (case k of 0 \<Rightarrow> Inl FilesystemLoop
                     | Suc k' \<Rightarrow> walk f follow k' cur (components t @ cs))
           | _ \<Rightarrow> if cs = [] then Inr (cur @ [n]) else Inl NotADirectory))"

record env =
  fault :: "nat \<Rightarrow> nat option"
  written :: "nat \<Rightarrow> nat"
  latency :: "nat \<Rightarrow> nat"
  tmp_name :: "nat \<Rightarrow> path \<Rightarrow> rstr"
  cwd :: loc
  umask :: u32
  euid :: u32
  egid :: u32

definition resolve :: "env \<Rightarrow> fs \<Rightarrow> bool \<Rightarrow> path \<Rightarrow> io_kind + loc" where
  "resolve e f follow p = (if p = [] then Inl NotFound else walk f follow 40 (cwd e) p)"

definition lookup :: "env \<Rightarrow> fs \<Rightarrow> bool \<Rightarrow> path \<Rightarrow> io_kind + (loc \<times> inode)" where
  "lookup e f follow p =
     (case resolve e f follow p of Inl k \<Rightarrow> Inl k
      | Inr l \<Rightarrow> (case f l of None \<Rightarrow> Inl NotFound | Some i \<Rightarrow> Inr (l, i)))"

section \<open>Calls\<close>

text \<open>
  The world an effectful function runs in: the file system, the number of calls made, a
  millisecond clock, and a record of what happened: every state the file system went through,
  what was flushed to disk, and which programs were started.
\<close>

datatype event = Mutated fs | Synced loc | Executed rstr "rstr list"

record world =
  fs :: fs
  tick :: nat
  clock :: nat
  trace :: "event list"

type_synonym 'a io = "(world, io_kind, 'a) act"
type_synonym 'a helper = "(world, error, 'a) act"

definition count_call :: "env \<Rightarrow> world \<Rightarrow> world" where
  "count_call e w = w\<lparr>tick := Suc (tick w), clock := clock w + latency e (tick w)\<rparr>"

definition set_fs :: "fs \<Rightarrow> world \<Rightarrow> world" where
  "set_fs f w = w\<lparr>fs := f, trace := trace w @ [Mutated f]\<rparr>"

text \<open>A call that reads, and a call that changes the file system.\<close>

definition query :: "env \<Rightarrow> (fs \<Rightarrow> io_kind + 'a) \<Rightarrow> 'a io" where
  "query e q w =
     (case fault e (tick w) of Some n \<Rightarrow> (Err (OsError n), count_call e w)
      | None \<Rightarrow> (case q (fs w) of Inl k \<Rightarrow> (Err k, count_call e w) | Inr a \<Rightarrow> (Ok a, count_call e w)))"

definition change :: "env \<Rightarrow> (fs \<Rightarrow> io_kind + fs) \<Rightarrow> unit io" where
  "change e g w =
     (case fault e (tick w) of Some n \<Rightarrow> (Err (OsError n), count_call e w)
      | None \<Rightarrow> (case g (fs w) of Inl k \<Rightarrow> (Err k, count_call e w)
                 | Inr f \<Rightarrow> (Ok (), set_fs f (count_call e w))))"

definition symlink_metadata :: "env \<Rightarrow> path \<Rightarrow> inode io" where
  "symlink_metadata e p = query e (\<lambda>f. map_sum id snd (lookup e f False p))"

definition metadata :: "env \<Rightarrow> path \<Rightarrow> inode io" where
  "metadata e p = query e (\<lambda>f. map_sum id snd (lookup e f True p))"

definition path_exists :: "env \<Rightarrow> path \<Rightarrow> (world, 'e, bool) act" where
  "path_exists e p = handle (metadata e p) (\<lambda>_. return True) (\<lambda>_. return False)"

definition path_is_dir :: "env \<Rightarrow> path \<Rightarrow> (world, 'e, bool) act" where
  "path_is_dir e p = handle (metadata e p) (\<lambda>i. return (kind i = Directory)) (\<lambda>_. return False)"

definition read_at :: "env \<Rightarrow> fs \<Rightarrow> path \<Rightarrow> io_kind + bytes" where
  "read_at e f p =
     (case lookup e f True p of Inl k \<Rightarrow> Inl k
      | Inr (l, i) \<Rightarrow> (case kind i of Regular d \<Rightarrow> Inr d | Directory \<Rightarrow> Inl IsADirectory
                       | _ \<Rightarrow> Inl (OsError 6)))"

definition fs_read :: "env \<Rightarrow> path \<Rightarrow> bytes io" where
  "fs_read e p = query e (\<lambda>f. read_at e f p)"

definition fs_open :: "env \<Rightarrow> path \<Rightarrow> loc io" where
  "fs_open e p = query e (\<lambda>f.
     case lookup e f True p of Inl k \<Rightarrow> Inl k
     | Inr (l, i) \<Rightarrow> if kind i = Socket then Inl (OsError 6) else Inr l)"

definition sync_all :: "env \<Rightarrow> loc \<Rightarrow> unit io" where
  "sync_all e l w =
     (case fault e (tick w) of Some n \<Rightarrow> (Err (OsError n), count_call e w)
      | None \<Rightarrow> (Ok (), (count_call e w)\<lparr>trace := trace w @ [Synced l]\<rparr>))"

text \<open>
  A temporary file: created exclusively, mode 0600, under the name the crate picks at this call; its handle
  is the location, its path is kept for the rename.
\<close>

definition tmp_path :: "env \<Rightarrow> nat \<Rightarrow> path \<Rightarrow> path" where
  "tmp_path e n dir = dir @ [Normal (tmp_name e n dir)]"

definition new_file :: "env \<Rightarrow> bytes \<Rightarrow> u32 \<Rightarrow> inode" where
  "new_file e d m = \<lparr>kind = Regular d, perm = m, owner = euid e, group = egid e\<rparr>"

definition tempfile_new_in :: "env \<Rightarrow> path \<Rightarrow> (loc \<times> path) io" where
  "tempfile_new_in e dir w =
     (let p = tmp_path e (tick w) dir in
      case fault e (tick w) of Some n \<Rightarrow> (Err (OsError n), count_call e w)
      | None \<Rightarrow> (case resolve e (fs w) False p of Inl k \<Rightarrow> (Err k, count_call e w)
          | Inr l \<Rightarrow>
              if fs w l \<noteq> None then (Err AlreadyExists, count_call e w)
              else (Ok (l, p), set_fs ((fs w)(l \<mapsto> new_file e [] (0x180 AND NOT (umask e)))) (count_call e w))))"

definition set_mode :: "u32 \<Rightarrow> loc \<Rightarrow> fs \<Rightarrow> io_kind + fs" where
  "set_mode m l f = (case f l of None \<Rightarrow> Inl NotFound | Some i \<Rightarrow> Inr (f(l \<mapsto> i\<lparr>perm := m\<rparr>)))"

definition file_set_permissions :: "env \<Rightarrow> loc \<Rightarrow> u32 \<Rightarrow> unit io" where
  "file_set_permissions e l m = change e (set_mode m l)"

definition append_data :: "bytes \<Rightarrow> loc \<Rightarrow> fs \<Rightarrow> fs" where
  "append_data bs l f =
     (case f l of Some i \<Rightarrow> (case kind i of Regular d \<Rightarrow> f(l \<mapsto> i\<lparr>kind := Regular (d @ bs)\<rparr>) | _ \<Rightarrow> f)
      | None \<Rightarrow> f)"

text \<open>A write that fails may have got some bytes through.\<close>

definition file_write_all :: "env \<Rightarrow> loc \<Rightarrow> bytes \<Rightarrow> unit io" where
  "file_write_all e l bs w =
     (case fault e (tick w) of
        Some n \<Rightarrow> (Err (OsError n),
                   set_fs (append_data (take (written e (tick w)) bs) l (fs w)) (count_call e w))
      | None \<Rightarrow> (Ok (), set_fs (append_data bs l (fs w)) (count_call e w)))"

definition fs_rename :: "env \<Rightarrow> path \<Rightarrow> path \<Rightarrow> unit io" where
  "fs_rename e src dst = change e (\<lambda>f.
     case lookup e f False src of Inl k \<Rightarrow> Inl k
     | Inr (l, i) \<Rightarrow>
         (case resolve e f False dst of Inl k \<Rightarrow> Inl k
          | Inr l' \<Rightarrow>
              if l' = l then Inr f
              else if kind i = Directory then Inl InvalidInput
              else if (case f l' of None \<Rightarrow> False | Some i' \<Rightarrow> kind i' = Directory) then Inl IsADirectory
              else Inr (f(l := None, l' \<mapsto> i))))"

definition fs_remove_file :: "env \<Rightarrow> path \<Rightarrow> unit io" where
  "fs_remove_file e p = change e (\<lambda>f.
     case lookup e f False p of Inl k \<Rightarrow> Inl k
     | Inr (l, i) \<Rightarrow> if kind i = Directory then Inl IsADirectory else Inr (f(l := None)))"

definition fs_mkdir :: "env \<Rightarrow> path \<Rightarrow> unit io" where
  "fs_mkdir e p = change e (\<lambda>f.
     case resolve e f False p of Inl k \<Rightarrow> Inl k
     | Inr l \<Rightarrow>
         if f l \<noteq> None \<or> l = [] then Inl AlreadyExists
         else Inr (f(l \<mapsto> \<lparr>kind = Directory, perm = 0x1FF AND NOT (umask e),
                           owner = euid e, group = egid e\<rparr>)))"

text \<open>\<^verbatim>\<open>create_dir_all\<close>: try, create the parent when it is missing, try again.\<close>

function create_dir_all :: "env \<Rightarrow> path \<Rightarrow> unit io" where
  "create_dir_all e p =
     (if p = [] then return ()
      else handle (fs_mkdir e p) return (\<lambda>k.
        if k = NotFound then
          (case parent p of
             None \<Rightarrow> throw (OsError 0)
           | Some q \<Rightarrow>
               seq (create_dir_all e q)
                 (handle (fs_mkdir e p) return (\<lambda>k'.
                    bind (path_is_dir e p) (\<lambda>d. if d then return () else throw k'))))
        else bind (path_is_dir e p) (\<lambda>d. if d then return () else throw k)))"
  by pat_completeness auto
termination
  by (relation "measure (\<lambda>(e, p). length p)") (auto simp: parent_def split: if_splits)

declare create_dir_all.simps [simp del]

definition fs_set_permissions :: "env \<Rightarrow> path \<Rightarrow> u32 \<Rightarrow> unit io" where
  "fs_set_permissions e p m = change e (\<lambda>f.
     case lookup e f True p of Inl k \<Rightarrow> Inl k | Inr (l, _) \<Rightarrow> set_mode m l f)"

definition fs_chown_group :: "env \<Rightarrow> path \<Rightarrow> u32 \<Rightarrow> unit io" where
  "fs_chown_group e p g = change e (\<lambda>f.
     case lookup e f True p of Inl k \<Rightarrow> Inl k | Inr (l, i) \<Rightarrow> Inr (f(l \<mapsto> i\<lparr>group := g\<rparr>)))"

definition bind_socket :: "env \<Rightarrow> path \<Rightarrow> unit io" where
  "bind_socket e p = change e (\<lambda>f.
     case resolve e f False p of Inl k \<Rightarrow> Inl k
     | Inr l \<Rightarrow>
         if f l \<noteq> None then Inl AddrInUse
         else Inr (f(l \<mapsto> \<lparr>kind = Socket, perm = 0x1FF AND NOT (umask e),
                           owner = euid e, group = egid e\<rparr>)))"

section \<open>Resolution and changes of the file system\<close>

definition dir_at :: "fs \<Rightarrow> loc \<Rightarrow> bool" where
  "dir_at f l \<longleftrightarrow> (case f l of None \<Rightarrow> False | Some i \<Rightarrow> kind i = Directory)"

definition link_at :: "fs \<Rightarrow> loc \<Rightarrow> rstr \<Rightarrow> bool" where
  "link_at f l t \<longleftrightarrow> (case f l of None \<Rightarrow> False | Some i \<Rightarrow> kind i = Link t)"

text \<open>
  \<open>g\<close> comes from \<open>f\<close> without removing a directory and without adding or removing a symbolic
  link: every path that resolves in \<open>f\<close> resolves to the same place in \<open>g\<close>.
\<close>

definition fs_ext :: "fs \<Rightarrow> fs \<Rightarrow> bool" where
  "fs_ext f g \<longleftrightarrow> (\<forall>l. dir_at f l \<longrightarrow> dir_at g l) \<and> (\<forall>l t. link_at f l t \<longleftrightarrow> link_at g l t)"

lemma fs_ext_refl [simp, intro]: "fs_ext f f"
  by (simp add: fs_ext_def)

lemma fs_ext_trans [trans]: "fs_ext f g \<Longrightarrow> fs_ext g h \<Longrightarrow> fs_ext f h"
  by (simp add: fs_ext_def)

lemma node_cases:
  obtains (Nothing) "f l = None" | (Dir) i where "f l = Some i" "kind i = Directory"
  | (Lnk) i t where "f l = Some i" "kind i = Link t"
  | (File) i d where "f l = Some i" "kind i = Regular d"
  | (Sock) i where "f l = Some i" "kind i = Socket"
  by (cases "f l") (auto, metis fkind.exhaust)

lemma not_link_or_dir:
  "\<not> dir_at g l \<Longrightarrow> (\<And>t. \<not> link_at g l t) \<Longrightarrow>
     walk g fl k cur [Normal n] = Inr (cur @ [n])" if "l = cur @ [n]"
  using that by (cases g l rule: node_cases) (auto simp: dir_at_def link_at_def)

lemma walk_ext:
  "walk f fl k cur cs = Inr r \<Longrightarrow> fs_ext f g \<Longrightarrow> walk g fl k cur cs = Inr r"
proof (induction f fl k cur cs rule: walk.induct)
  case (5 f fl k cur n cs)
  let ?l = "cur @ [n]"
  from "5.prems"(2) have ext: "dir_at f ?l \<Longrightarrow> dir_at g ?l" "\<And>t. link_at f ?l t \<longleftrightarrow> link_at g ?l t"
    by (simp_all add: fs_ext_def)
  show ?case
  proof (cases f ?l rule: node_cases)
    case (Dir i)
    then obtain j where "g ?l = Some j" "kind j = Directory"
      using ext(1) by (auto simp: dir_at_def split: option.splits)
    with Dir "5.IH"(1) [OF Dir] "5.prems" show ?thesis by simp
  next
    case (Lnk i t)
    then obtain j where j: "g ?l = Some j" "kind j = Link t"
      using ext(2) [of t] by (auto simp: link_at_def split: option.splits)
    show ?thesis
    proof (cases "cs = [] \<and> \<not> fl")
      case False
      then obtain k' where k: "k = Suc k'" "walk f fl k' cur (components t @ cs) = Inr r"
        using "5.prems"(1) Lnk by (cases k) (auto split: if_splits)
      from "5.IH"(2) [OF Lnk False k(1) k(2) "5.prems"(2)] False j k(1) show ?thesis by auto
    qed (use "5.prems"(1) Lnk j in simp)
  qed (use "5.prems"(1) ext not_link_or_dir [OF refl, of g cur n fl k] in
      \<open>cases g ?l rule: node_cases; force simp: dir_at_def link_at_def split: if_splits\<close>)+
qed auto

lemma resolve_ext: "resolve e f fl p = Inr l \<Longrightarrow> fs_ext f g \<Longrightarrow> resolve e g fl p = Inr l"
  by (auto simp: resolve_def split: if_splits intro: walk_ext)

text \<open>Without a symbolic link at its end, a path means the same whether links are followed or not.\<close>

lemma walk_follow:
  "walk f fl k cur cs = Inr l \<Longrightarrow> \<not> fl \<Longrightarrow> (\<And>t. \<not> link_at f l t) \<Longrightarrow> walk f True k cur cs = Inr l"
proof (induction f fl k cur cs rule: walk.induct)
  case (5 f fl k cur n cs)
  show ?case
  proof (cases f "cur @ [n]" rule: node_cases)
    case (Lnk i t)
    show ?thesis
    proof (cases "cs = [] \<and> \<not> fl")
      case True
      then have "l = cur @ [n]" using "5.prems"(1) Lnk by simp
      with Lnk "5.prems"(3) [of t] show ?thesis by (simp add: link_at_def)
    next
      case False
      then obtain k' where k: "k = Suc k'" "walk f fl k' cur (components t @ cs) = Inr l"
        using "5.prems"(1) Lnk by (cases k) (auto split: if_splits)
      from "5.IH"(2) [OF Lnk False k(1) k(2) "5.prems"(2,3)] Lnk k(1) show ?thesis by auto
    qed
  qed (use "5.IH"(1) "5.prems" in auto)
qed auto

lemma resolve_follow:
  "resolve e f False p = Inr l \<Longrightarrow> (\<And>t. \<not> link_at f l t) \<Longrightarrow> resolve e f True p = Inr l"
  by (auto simp: resolve_def split: if_splits intro: walk_follow)

lemma walk_nofollow:
  "walk f True k cur cs = Inr l \<Longrightarrow> \<exists>l'. walk f False k cur cs = Inr l'"
proof (induction f True k cur cs rule: walk.induct)
  case (5 f k cur n cs)
  show ?case
  proof (cases f "cur @ [n]" rule: node_cases)
    case (Lnk i t)
    then obtain k' where k: "k = Suc k'" "walk f True k' cur (components t @ cs) = Inr l"
      using "5.prems" by (cases k) auto
    with "5.hyps"(2) [OF Lnk] Lnk show ?thesis by (cases "cs = []") auto
  qed (use "5.hyps"(1) "5.prems" in auto)
qed auto

lemma resolve_nofollow: "resolve e f True p = Inr l \<Longrightarrow> \<exists>l'. resolve e f False p = Inr l'"
  by (auto simp: resolve_def split: if_splits intro: walk_nofollow)

lemma walk_nofollow_Inl: "walk f False k cur cs = Inl x \<Longrightarrow> walk f True k cur cs = Inl x"
proof (induction f False k cur cs rule: walk.induct)
  case (5 f k cur n cs)
  show ?case
  proof (cases f "cur @ [n]" rule: node_cases)
    case (Lnk i t)
    with "5.prems" have cs: "cs \<noteq> []" by auto
    with "5.hyps"(2) [OF Lnk] "5.prems" Lnk show ?thesis by (cases k) auto
  qed (use "5.hyps"(1) "5.prems" in auto)
qed auto

lemma resolve_nofollow_Inl: "resolve e f False p = Inl x \<Longrightarrow> resolve e f True p = Inl x"
  by (auto simp: resolve_def split: if_splits intro: walk_nofollow_Inl)

section \<open>File contents\<close>

text \<open>
  The abstract view of a file system: which locations hold a regular file, with which bytes.
\<close>

definition data :: "fs \<Rightarrow> loc \<Rightarrow> bytes option" where
  "data f l = (case f l of None \<Rightarrow> None | Some i \<Rightarrow> (case kind i of Regular d \<Rightarrow> Some d | _ \<Rightarrow> None))"

text \<open>Locations that hold neither a directory nor a symbolic link.\<close>

definition plain :: "fs \<Rightarrow> loc \<Rightarrow> bool" where
  "plain f l \<longleftrightarrow> \<not> dir_at f l \<and> (\<forall>t. \<not> link_at f l t)"

lemma plain_None [simp]: "f l = None \<Longrightarrow> plain f l"
  by (simp add: plain_def dir_at_def link_at_def)

lemma plain_upd [simp]:
  "plain (f(l \<mapsto> i)) l \<longleftrightarrow> (case kind i of Regular _ \<Rightarrow> True | Socket \<Rightarrow> True | _ \<Rightarrow> False)"
  by (auto simp: plain_def dir_at_def link_at_def split: fkind.splits)

lemma new_file_sel [simp]:
  "kind (new_file e d m) = Regular d" "perm (new_file e d m) = m"
  "owner (new_file e d m) = euid e" "group (new_file e d m) = egid e"
  by (simp_all add: new_file_def)

lemma data_upd [simp]:
  "data (f(l \<mapsto> i)) l' = (if l' = l then (case kind i of Regular d \<Rightarrow> Some d | _ \<Rightarrow> None) else data f l')"
  "data (f(l := None)) l' = (if l' = l then None else data f l')"
  by (auto simp: data_def)

lemma data_None [simp]: "f l = None \<Longrightarrow> data f l = None"
  by (simp add: data_def)

lemma data_plain: "data f l = Some d \<Longrightarrow> plain f l"
  by (auto simp: data_def plain_def dir_at_def link_at_def split: option.splits fkind.splits)

text \<open>Replacing one plain node by another, or by nothing, changes no path resolution.\<close>

lemma fs_ext_plain: "plain f l \<Longrightarrow> plain (f(l := x)) l \<Longrightarrow> fs_ext f (f(l := x))"
  unfolding fs_ext_def plain_def by (auto simp: dir_at_def link_at_def)

lemma fs_ext_plain_rev: "plain f l \<Longrightarrow> plain (f(l := x)) l \<Longrightarrow> fs_ext (f(l := x)) f"
  unfolding fs_ext_def plain_def by (auto simp: dir_at_def link_at_def)

lemma fs_ext_mode: "f l = Some i \<Longrightarrow> kind j = kind i \<Longrightarrow> fs_ext f (f(l \<mapsto> j))"
  unfolding fs_ext_def by (auto simp: dir_at_def link_at_def)

lemma fs_ext_mkdir: "f l = None \<Longrightarrow> kind j = Directory \<Longrightarrow> fs_ext f (f(l \<mapsto> j))"
  unfolding fs_ext_def by (auto simp: dir_at_def link_at_def)

lemma resolve_plain_upd:
  assumes "plain f l" and "plain (f(l := x)) l"
  shows "resolve e (f(l := x)) fl p = Inr r \<longleftrightarrow> resolve e f fl p = Inr r"
  using resolve_ext [OF _ fs_ext_plain [OF assms]] resolve_ext [OF _ fs_ext_plain_rev [OF assms]] by blast

lemma lookup_plain_upd:
  assumes "plain f l" and "plain (f(l \<mapsto> i)) l" and "resolve e f fl p = Inr l"
  shows "lookup e (f(l \<mapsto> i)) fl p = Inr (l, i)"
proof -
  have "resolve e (f(l \<mapsto> i)) fl p = Inr l"
    using assms by (simp add: resolve_plain_upd)
  then show ?thesis by (simp add: lookup_def)
qed

section \<open>Calls, by weakest precondition\<close>

lemma count_call_sel [simp]:
  "fs (count_call e w) = fs w" "clock (count_call e w) = clock w + latency e (tick w)" "trace (count_call e w) = trace w"
  "tick (count_call e w) = Suc (tick w)"
  by (simp_all add: count_call_def)

lemma set_fs_sel [simp]:
  "fs (set_fs f w) = f" "clock (set_fs f w) = clock w" "trace (set_fs f w) = trace w @ [Mutated f]"
  "tick (set_fs f w) = tick w"
  by (simp_all add: set_fs_def)

lemma wp_query [wp_simps]:
  "wp (query e q) Q w \<longleftrightarrow>
     (case fault e (tick w) of Some n \<Rightarrow> Q (Err (OsError n)) (count_call e w)
      | None \<Rightarrow> (case q (fs w) of Inl k \<Rightarrow> Q (Err k) (count_call e w) | Inr a \<Rightarrow> Q (Ok a) (count_call e w)))"
  by (simp add: wp_def query_def split: option.splits sum.splits)

lemma wp_change [wp_simps]:
  "wp (change e g) Q w \<longleftrightarrow>
     (case fault e (tick w) of Some n \<Rightarrow> Q (Err (OsError n)) (count_call e w)
      | None \<Rightarrow> (case g (fs w) of Inl k \<Rightarrow> Q (Err k) (count_call e w)
                 | Inr f \<Rightarrow> Q (Ok ()) (set_fs f (count_call e w))))"
  by (simp add: wp_def change_def split: option.splits sum.splits)

lemma wp_sync_all [wp_simps]:
  "wp (sync_all e l) Q w \<longleftrightarrow>
     (case fault e (tick w) of Some n \<Rightarrow> Q (Err (OsError n)) (count_call e w)
      | None \<Rightarrow> Q (Ok ()) ((count_call e w)\<lparr>trace := trace w @ [Synced l]\<rparr>))"
  by (simp add: wp_def sync_all_def split: option.splits)

lemma wp_tempfile_new_in [wp_simps]:
  "wp (tempfile_new_in e dir) Q w \<longleftrightarrow>
     (case fault e (tick w) of Some n \<Rightarrow> Q (Err (OsError n)) (count_call e w)
      | None \<Rightarrow> (case resolve e (fs w) False (tmp_path e (tick w) dir) of Inl k \<Rightarrow> Q (Err k) (count_call e w)
          | Inr l \<Rightarrow>
              if fs w l \<noteq> None then Q (Err AlreadyExists) (count_call e w)
              else Q (Ok (l, tmp_path e (tick w) dir))
                     (set_fs ((fs w)(l \<mapsto> new_file e [] (0x180 AND NOT (umask e)))) (count_call e w))))"
  by (auto simp: wp_def tempfile_new_in_def Let_def split: option.splits sum.splits)

lemma wp_file_write_all [wp_simps]:
  "wp (file_write_all e l bs) Q w \<longleftrightarrow>
     (case fault e (tick w) of
        Some n \<Rightarrow> Q (Err (OsError n)) (set_fs (append_data (take (written e (tick w)) bs) l (fs w)) (count_call e w))
      | None \<Rightarrow> Q (Ok ()) (set_fs (append_data bs l (fs w)) (count_call e w)))"
  by (simp add: wp_def file_write_all_def split: option.splits)

lemma append_data_new_file [simp]:
  "append_data bs l (f(l \<mapsto> new_file e d m)) = f(l \<mapsto> new_file e (d @ bs) m)"
  by (simp add: append_data_def new_file_def)

lemma set_mode_new_file [simp]:
  "set_mode m l (f(l \<mapsto> new_file e d m')) = Inr (f(l \<mapsto> new_file e d m))"
  by (simp add: set_mode_def new_file_def)

section \<open>What was seen on the way\<close>

text \<open>\<open>passed S w w'\<close>: from \<open>w\<close> to \<open>w'\<close>, the file system went only through states in \<open>S\<close>.\<close>

definition passed :: "(fs \<Rightarrow> bool) \<Rightarrow> world \<Rightarrow> world \<Rightarrow> bool" where
  "passed S w w' \<longleftrightarrow> (\<exists>evs. trace w' = trace w @ evs \<and> (\<forall>f. Mutated f \<in> set evs \<longrightarrow> S f))"

lemma passed_refl [simp]: "trace w' = trace w \<Longrightarrow> passed S w w'"
  by (simp add: passed_def)

lemma passed_trans: "passed S w w' \<Longrightarrow> passed S w' w'' \<Longrightarrow> passed S w w''"
  by (auto simp: passed_def)

lemma passed_mono: "passed S w w' \<Longrightarrow> (\<And>f. S f \<Longrightarrow> T f) \<Longrightarrow> passed T w w'"
  by (auto simp: passed_def)

lemma passed_count [simp]:
  "passed S w (count_call e w') \<longleftrightarrow> passed S w w'" "passed S (count_call e w) w' \<longleftrightarrow> passed S w w'"
  by (simp_all add: passed_def)

lemma passed_set_fs: "passed S w w' \<Longrightarrow> S f \<Longrightarrow> passed S w (set_fs f w')"
  by (auto simp: passed_def)

lemma passed_synced [simp]:
  "trace w' = trace w'' \<Longrightarrow> passed S w w'' \<Longrightarrow>
     passed S w (w'\<lparr>trace := trace w'' @ [Synced l]\<rparr>)"
  by (auto simp: passed_def)


section \<open>Relations kept by every step\<close>

text \<open>
  \<open>always R m\<close>: a run of \<open>m\<close> relates its first and last world by \<open>R\<close>, whatever fails. For a
  reflexive and transitive \<open>R\<close> this goes through every combinator, so that it has to be shown of
  the single calls only.
\<close>

definition always :: "('w \<Rightarrow> 'w \<Rightarrow> bool) \<Rightarrow> ('w, 'e, 'a) act \<Rightarrow> bool" where
  "always R m \<longleftrightarrow> (\<forall>w. wp m (\<lambda>r w'. R w w') w)"

locale step_relation =
  fixes R :: "'w \<Rightarrow> 'w \<Rightarrow> bool"
  assumes R_refl: "R w w" and R_trans: "R w w' \<Longrightarrow> R w' w'' \<Longrightarrow> R w w''"
begin

lemma always_return: "always R (return a)"
  by (simp add: always_def wp_simps R_refl)

lemma always_throw: "always R (throw x)"
  by (simp add: always_def wp_simps R_refl)

lemma always_lift: "always R (lift r)"
  by (cases r) (auto intro: always_return always_throw)

lemma always_handle:
  "always R m \<Longrightarrow> (\<And>a. always R (f a)) \<Longrightarrow> (\<And>x. always R (g x)) \<Longrightarrow> always R (handle m f g)"
  by (auto simp: always_def wp_fst_snd handle_def split: prod.splits ret.splits)
    (metis R_trans fst_conv snd_conv)+

lemma always_bind: "always R m \<Longrightarrow> (\<And>a. always R (f a)) \<Longrightarrow> always R (bind m f)"
  by (auto simp: always_def wp_fst_snd bind_def split: prod.splits ret.splits)
    (metis R_trans fst_conv snd_conv)+

lemma always_seq: "always R m \<Longrightarrow> always R n \<Longrightarrow> always R (seq m n)"
  by (simp add: seq_def always_bind)

lemma always_map_err: "always R m \<Longrightarrow> always R (map_err h m)"
  by (simp add: map_err_def always_handle always_return always_throw)

lemma always_if: "always R m \<Longrightarrow> always R n \<Longrightarrow> always R (if b then m else n)"
  by simp

lemma always_option:
  "always R m \<Longrightarrow> (\<And>a. always R (f a)) \<Longrightarrow> always R (case x of None \<Rightarrow> m | Some a \<Rightarrow> f a)"
  by (cases x) auto

lemmas always_intros = always_return always_throw always_lift always_handle always_bind always_seq
  always_map_err always_if always_option

end

text \<open>
  First use: an invariant of the file system that holds in every state on the way.
\<close>

definition inv_step :: "(fs \<Rightarrow> bool) \<Rightarrow> world \<Rightarrow> world \<Rightarrow> bool" where
  "inv_step I w w' \<longleftrightarrow> (I (fs w) \<longrightarrow> I (fs w') \<and> passed I w w')"

interpretation inv: step_relation "inv_step I" for I
  by unfold_locales (auto simp: inv_step_def intro: passed_trans)

abbreviation stays :: "(fs \<Rightarrow> bool) \<Rightarrow> (world, 'e, 'a) act \<Rightarrow> bool" where
  "stays I \<equiv> always (inv_step I)"

declare inv.always_intros [stays_intros]

lemma staysD: "stays I m \<Longrightarrow> I (fs w) \<Longrightarrow> wp m (\<lambda>r w'. I (fs w') \<and> passed I w w') w"
  unfolding always_def inv_step_def by (auto simp: wp_fst_snd)

lemma staysI: "(\<And>w. I (fs w) \<Longrightarrow> wp m (\<lambda>r w'. I (fs w') \<and> passed I w w') w) \<Longrightarrow> stays I m"
  unfolding always_def inv_step_def by (auto simp: wp_fst_snd)

lemma stays_query [stays_intros]: "stays I (query e q)"
  by (simp add: always_def inv_step_def wp_simps split: option.splits sum.splits)

lemma stays_change: "(\<And>f f'. I f \<Longrightarrow> g f = Inr f' \<Longrightarrow> I f') \<Longrightarrow> stays I (change e g)"
  by (auto simp: always_def inv_step_def wp_simps passed_set_fs split: option.splits sum.splits)

lemma stays_sync_all [stays_intros]: "stays I (sync_all e l)"
  by (simp add: always_def inv_step_def wp_simps split: option.splits)

text \<open>
  Second use: the programs started on the way.
\<close>

definition ran :: "(rstr \<times> rstr list) set \<Rightarrow> world \<Rightarrow> world \<Rightarrow> bool" where
  "ran C w w' \<longleftrightarrow> (\<exists>evs. trace w' = trace w @ evs \<and> (\<forall>p as. Executed p as \<in> set evs \<longrightarrow> (p, as) \<in> C))"

interpretation cmd: step_relation "ran C" for C
proof
  show "ran C w w''" if "ran C w w'" "ran C w' w''" for w w' w''
    using that unfolding ran_def by (elim exE conjE) (rule exI, auto)
qed (simp add: ran_def)

declare cmd.always_intros [stays_intros]

lemma ran_query [stays_intros]: "always (ran C) (query e q)"
  by (simp add: always_def ran_def wp_simps split: option.splits sum.splits)

lemma ran_change [stays_intros]: "always (ran C) (change e g)"
  by (simp add: always_def ran_def wp_simps split: option.splits sum.splits)

lemma ran_calls [stays_intros]:
  "always (ran C) (sync_all e l)" "always (ran C) (tempfile_new_in e d)" "always (ran C) (file_write_all e l bs)"
  by (auto simp: always_def ran_def wp_simps split: option.splits sum.splits)

text \<open>
  Third use: where calls take no time, only the programs move the clock.
\<close>

definition timeless :: "env \<Rightarrow> world \<Rightarrow> world \<Rightarrow> bool" where
  "timeless e w w' \<longleftrightarrow> (latency e = (\<lambda>_. 0) \<longrightarrow> clock w' = clock w)"

interpretation tml: step_relation "timeless e" for e
  by unfold_locales (simp_all add: timeless_def)

declare tml.always_intros [stays_intros]

lemma timeless_query [stays_intros]: "always (timeless e) (query e q)"
  by (simp add: always_def timeless_def wp_simps split: option.splits sum.splits)

lemma timeless_change [stays_intros]: "always (timeless e) (change e g)"
  by (simp add: always_def timeless_def wp_simps split: option.splits sum.splits)

lemma timeless_calls [stays_intros]:
  "always (timeless e) (sync_all e l)" "always (timeless e) (tempfile_new_in e d)"
  "always (timeless e) (file_write_all e l bs)"
  by (auto simp: always_def timeless_def wp_simps split: option.splits sum.splits)

lemma wp_timeless:
  "always (timeless e) m \<Longrightarrow> latency e = (\<lambda>_. 0) \<Longrightarrow> wp m (\<lambda>r w'. clock w' = clock w) w"
  by (simp add: always_def timeless_def)

text \<open>The calls that only read.\<close>

lemma read_calls [stays_intros]:
  assumes "\<And>q :: fs \<Rightarrow> io_kind + inode. always R (query e q)" "\<And>q :: fs \<Rightarrow> io_kind + bytes. always R (query e q)"
    "\<And>q :: fs \<Rightarrow> io_kind + loc. always R (query e q)" "step_relation R"
  shows "always R (symlink_metadata e p)" "always R (metadata e p)" "always R (path_exists e p)"
    "always R (path_is_dir e p)" "always R (fs_read e p)" "always R (fs_open e p)"
  unfolding symlink_metadata_def metadata_def path_exists_def path_is_dir_def fs_read_def fs_open_def
  by (intro assms step_relation.always_intros [OF assms(4)])+

declare inv.step_relation_axioms [stays_intros] cmd.step_relation_axioms [stays_intros]
  tml.step_relation_axioms [stays_intros]

lemma ran_updates [stays_intros]:
  "always (ran C) (fs_mkdir e p)" "always (ran C) (fs_set_permissions e p m)"
  "always (ran C) (fs_chown_group e p g)" "always (ran C) (fs_rename e p q)"
  "always (ran C) (fs_remove_file e p)" "always (ran C) (bind_socket e p)"
  "always (ran C) (file_set_permissions e l m)"
  unfolding fs_mkdir_def fs_set_permissions_def fs_chown_group_def fs_rename_def fs_remove_file_def
    bind_socket_def file_set_permissions_def
  by (rule ran_change)+

text \<open>
  \<open>keeps f g\<close>: every path of \<open>f\<close> means the same in \<open>g\<close> and every file has the same bytes.
\<close>

definition keeps :: "fs \<Rightarrow> fs \<Rightarrow> bool" where
  "keeps f g \<longleftrightarrow> fs_ext f g \<and> (\<forall>l d. data f l = Some d \<longrightarrow> data g l = Some d)"

lemma keeps_refl [simp]: "keeps f f"
  by (simp add: keeps_def)

lemma keeps_trans [trans]: "keeps f g \<Longrightarrow> keeps g h \<Longrightarrow> keeps f h"
  by (auto simp: keeps_def intro: fs_ext_trans)

lemma keeps_new: "f l = None \<Longrightarrow> (\<forall>t. kind i \<noteq> Link t) \<Longrightarrow> keeps f (f(l \<mapsto> i))"
  by (auto simp: keeps_def fs_ext_def dir_at_def link_at_def)

lemma lookup_Inr: "lookup e f fl p = Inr (l, i) \<longleftrightarrow> resolve e f fl p = Inr l \<and> f l = Some i"
  by (auto simp: lookup_def split: sum.splits option.splits)

text \<open>\<open>same_data f g\<close>: moreover no file appeared.\<close>

definition same_data :: "fs \<Rightarrow> fs \<Rightarrow> bool" where
  "same_data f g \<longleftrightarrow> fs_ext f g \<and> data g = data f"

lemma same_refl [simp]: "same_data f f"
  by (simp add: same_data_def)

lemma same_trans [trans]: "same_data f g \<Longrightarrow> same_data g h \<Longrightarrow> same_data f h"
  by (auto simp: same_data_def intro: fs_ext_trans)

lemma same_keeps: "same_data f g \<Longrightarrow> keeps f g"
  by (simp add: same_data_def keeps_def)

lemma same_new_dir: "f l = None \<Longrightarrow> kind i = Directory \<Longrightarrow> same_data f (f(l \<mapsto> i))"
  by (auto simp: same_data_def fs_ext_mkdir fun_eq_iff)

lemma same_attr: "f l = Some i \<Longrightarrow> kind j = kind i \<Longrightarrow> same_data f (f(l \<mapsto> j))"
  by (auto simp: same_data_def data_def fun_eq_iff intro: fs_ext_mode)

lemma same_mkdir [stays_intros]: "stays (same_data f) (fs_mkdir e p)"
  unfolding fs_mkdir_def
  by (rule stays_change) (auto elim!: same_trans intro!: same_new_dir split: sum.splits if_splits)

lemma same_set_permissions [stays_intros]: "stays (same_data f) (fs_set_permissions e p m)"
  unfolding fs_set_permissions_def
  by (rule stays_change)
    (auto simp: set_mode_def elim!: same_trans intro!: same_attr split: sum.splits option.splits)

lemma same_chown_group [stays_intros]: "stays (same_data f) (fs_chown_group e p g)"
  unfolding fs_chown_group_def
  by (rule stays_change) (auto simp: lookup_Inr elim!: same_trans intro!: same_attr split: sum.splits)

lemma always_create_dir_all:
  assumes "step_relation R" "\<And>p. always R (fs_mkdir e p)" "\<And>q :: fs \<Rightarrow> io_kind + inode. always R (query e q)"
  shows "always R (create_dir_all e p)"
proof (induction p rule: measure_induct_rule [of length])
  case (less p)
  note intros = step_relation.always_intros [OF assms(1)]
  have dir: "always R (path_is_dir e q)" for q
    unfolding path_is_dir_def metadata_def by (intro intros assms(3))
  show ?case
  proof (cases "parent p")
    case None
    then show ?thesis
      by (subst create_dir_all.simps) (simp add: intros assms(2) dir)
  next
    case (Some q)
    then have "length q < length p" by (auto simp: parent_def split: if_splits)
    with less Some show ?thesis
      by (subst create_dir_all.simps) (simp add: intros assms(2) dir)
  qed
qed

lemma same_create_dir_all [stays_intros]: "stays (same_data f) (create_dir_all e p)"
  by (intro always_create_dir_all stays_intros)

lemma timeless_updates [stays_intros]:
  "always (timeless e) (fs_mkdir e p)" "always (timeless e) (fs_set_permissions e p m)"
  "always (timeless e) (fs_rename e p q)" "always (timeless e) (fs_remove_file e p)"
  "always (timeless e) (file_set_permissions e l m)"
  unfolding fs_mkdir_def fs_set_permissions_def fs_rename_def fs_remove_file_def file_set_permissions_def
  by (rule timeless_change)+

lemma timeless_create_dir_all [stays_intros]: "always (timeless e) (create_dir_all e p)"
  by (intro always_create_dir_all stays_intros)

lemma ran_create_dir_all [stays_intros]: "always (ran C) (create_dir_all e p)"
  by (intro always_create_dir_all stays_intros)

text \<open>\<open>same_nodes f g\<close>: the same nodes, up to owners and permissions.\<close>

definition same_nodes :: "fs \<Rightarrow> fs \<Rightarrow> bool" where
  "same_nodes f g \<longleftrightarrow> (\<forall>l. map_option kind (g l) = map_option kind (f l))"

lemma same_nodes_refl [simp]: "same_nodes f f"
  by (simp add: same_nodes_def)

lemma same_nodes_trans: "same_nodes f g \<Longrightarrow> same_nodes g h \<Longrightarrow> same_nodes f h"
  by (simp add: same_nodes_def)

lemma same_nodes_at:
  assumes "same_nodes f g"
  shows "dir_at g l \<longleftrightarrow> dir_at f l" "link_at g l t \<longleftrightarrow> link_at f l t" "plain g l \<longleftrightarrow> plain f l"
    "g l = None \<longleftrightarrow> f l = None" "data g = data f"
proof -
  have k: "map_option kind (g l) = map_option kind (f l)" for l using assms by (simp add: same_nodes_def)
  have D: "dir_at x l \<longleftrightarrow> map_option kind (x l) = Some Directory" for x l
    by (auto simp: dir_at_def split: option.splits)
  then show d: "dir_at g l \<longleftrightarrow> dir_at f l" for l by (simp only: D k)
  have L: "link_at x l t \<longleftrightarrow> map_option kind (x l) = Some (Link t)" for x l t
    by (auto simp: link_at_def split: option.splits)
  then show n: "link_at g l t \<longleftrightarrow> link_at f l t" for l t by (simp only: L k)
  show "plain g l \<longleftrightarrow> plain f l" by (simp add: plain_def d n)
  show "g l = None \<longleftrightarrow> f l = None" using k [of l] by (metis option.map_disc_iff)
  have "data x l = (case map_option kind (x l) of Some (Regular d) \<Rightarrow> Some d | _ \<Rightarrow> None)" for x l
    by (simp add: data_def split: option.splits fkind.splits)
  then show "data g = data f" by (simp only: k fun_eq_iff, blast)
qed

lemma same_nodes_ext: "same_nodes f g \<Longrightarrow> fs_ext f g" "same_nodes f g \<Longrightarrow> fs_ext g f"
  by (simp_all add: fs_ext_def same_nodes_at)

lemma same_nodes_resolve: "same_nodes f g \<Longrightarrow> resolve e g fl p = Inr l \<longleftrightarrow> resolve e f fl p = Inr l"
  by (metis resolve_ext same_nodes_ext)

section \<open>A concrete host\<close>

text \<open>
  The layout of a freshly installed host with its token file, no call failing: the conditional theorems of the
  components are applied to it.
\<close>

definition dir_node :: inode where
  "dir_node = \<lparr>kind = Directory, perm = 0x1ED, owner = 0, group = 0\<rparr>"

definition file_node :: "rstr \<Rightarrow> inode" where
  "file_node s = \<lparr>kind = Regular (as_bytes s), perm = 0x1A4, owner = 0, group = 0\<rparr>"

definition sample_token :: rstr where
  "sample_token = lit ''0123456789abcdef0123456789abcdef''"

definition token_node :: inode where
  "token_node = (file_node (sample_token @ [10]))\<lparr>perm := 0x1A0\<rparr>"

definition host_env :: env where
  "host_env = \<lparr>fault = (\<lambda>_. None), written = (\<lambda>_. 0), latency = (\<lambda>_. 0), tmp_name = (\<lambda>_ _. lit ''.tmpA1''),
     cwd = [], umask = 0x12, euid = 0, egid = 0\<rparr>"

definition host_fs :: "rstr \<Rightarrow> fs" where
  "host_fs config = map_of
     [([], dir_node), ([lit ''etc''], dir_node), ([lit ''run''], dir_node),
      ([lit ''etc'', lit ''ssh''], dir_node), ([lit ''etc'', lit ''ssh'', lit ''mayfly''], dir_node),
      ([lit ''etc'', lit ''ssh'', lit ''sshd_config''], file_node config),
      ([lit ''etc'', lit ''ssh'', lit ''sshd_config.d''], dir_node),
      ([lit ''etc'', lit ''mayfly-agent''], dir_node),
      ([lit ''etc'', lit ''mayfly-agent'', lit ''helper.token''], token_node)]"

definition host :: "rstr \<Rightarrow> world" where
  "host config = \<lparr>fs = host_fs config, tick = 0, clock = 0, trace = []\<rparr>"

lemma host_env_sel [simp]:
  "fault host_env = (\<lambda>_. None)" "latency host_env = (\<lambda>_. 0)" "tmp_name host_env n d = lit ''.tmpA1''" "cwd host_env = []"
  "umask host_env = 0x12" "euid host_env = 0" "egid host_env = 0"
  by (simp_all add: host_env_def)

lemma host_sel [simp]: "fs (host c) = host_fs c" "tick (host c) = 0" "clock (host c) = 0" "trace (host c) = []"
  by (simp_all add: host_def)

lemma numeral_40: "(40::nat) = Suc 39" by simp

lemmas host_eval = host_fs_def dir_node_def file_node_def resolve_def lookup_def parent_def dir_at_def
  link_at_def plain_def tmp_path_def lit_def

end
