(* ===== verification/Security.thy ===== *)
theory Security
  imports Fs
begin

text \<open>
  \<^verbatim>\<open>src/security.rs\<close>: the hardened file primitives. The lemmas describe \<open>secure_write\<close> for
  every pattern of failing calls: which locations it can change, what they hold afterwards and
  what any reader could have seen in between; and what the permission, ownership and symlink
  checks decide.
\<close>

section \<open>Definitions\<close>

text \<open>The octal modes 0600, 0644, 0700, 0022 and 0777.\<close>

definition MODE_SECRET :: u32 where "MODE_SECRET = 0x180"
definition MODE_PUBLIC :: u32 where "MODE_PUBLIC = 0x1A4"
definition MODE_DIR :: u32 where "MODE_DIR = 0x1C0"
definition ROOT_UID :: u32 where "ROOT_UID = 0"
definition GROUP_OR_OTHER_WRITABLE :: u32 where "GROUP_OR_OTHER_WRITABLE = 0x12"

definition parent_of :: "path \<Rightarrow> error + path" where
  "parent_of p = (case parent p of None \<Rightarrow> Inl InvalidPath
     | Some q \<Rightarrow> if q = [] then Inl InvalidPath else Inr q)"

text \<open>The error of a failed call; the path goes to the log only.\<close>

definition io :: "path \<Rightarrow> io_kind \<Rightarrow> error" where
  "io p k = Io k"

lemma io_Io [simp, wp_simps, act_simps]: "io p = Io"
  by (simp add: fun_eq_iff io_def)

definition fsync :: "env \<Rightarrow> path \<Rightarrow> unit helper" where
  "fsync e p = bind (map_err (io p) (fs_open e p)) (\<lambda>l. map_err (io p) (sync_all e l))"

definition fsync_dir :: "env \<Rightarrow> path \<Rightarrow> unit helper" where
  "fsync_dir e dir = bind (map_err (io dir) (fs_open e dir)) (\<lambda>l. map_err (io dir) (sync_all e l))"

definition atomic_replace :: "env \<Rightarrow> path \<Rightarrow> path \<Rightarrow> unit helper" where
  "atomic_replace e src dst =
     bind (lift (parent_of dst)) (\<lambda>dir.
     seq (map_err (io dst) (fs_rename e src dst)) (fsync_dir e dir))"

text \<open>
  An early return drops the temporary file, which deletes it and ignores a failure. From
  \<^verbatim>\<open>keep\<close> on, which makes no call on Linux, nothing deletes it any more.
\<close>

definition drop_on_error :: "env \<Rightarrow> path \<Rightarrow> unit helper \<Rightarrow> unit helper" where
  "drop_on_error e tp m =
     handle m return (\<lambda>x. handle (fs_remove_file e tp) (\<lambda>_. throw x) (\<lambda>_. throw x))"

definition secure_write :: "env \<Rightarrow> path \<Rightarrow> bytes \<Rightarrow> u32 \<Rightarrow> unit helper" where
  "secure_write e p contents mode =
     bind (lift (parent_of p)) (\<lambda>dir.
     bind (map_err (io p) (tempfile_new_in e dir)) (\<lambda>(tmp, tp).
     seq (drop_on_error e tp
            (seq (map_err (io p) (file_set_permissions e tmp mode))
            (seq (map_err (io p) (file_write_all e tmp contents))
                 (map_err (io p) (sync_all e tmp)))))
         (atomic_replace e tp p)))"

definition is_symlink :: "env \<Rightarrow> path \<Rightarrow> bool helper" where
  "is_symlink e p =
     handle (symlink_metadata e p)
       (\<lambda>i. return (case kind i of Link _ \<Rightarrow> True | _ \<Rightarrow> False))
       (\<lambda>k. if k = NotFound then return False else throw (io p k))"

definition ensure_not_symlink :: "env \<Rightarrow> path \<Rightarrow> unit helper" where
  "ensure_not_symlink e p =
     bind (is_symlink e p) (\<lambda>b. if b then throw UnexpectedSymlink else return ())"

definition validate_owner :: "env \<Rightarrow> path \<Rightarrow> u32 \<Rightarrow> unit helper" where
  "validate_owner e p expected_uid =
     bind (map_err (io p) (symlink_metadata e p)) (\<lambda>i.
     if owner i \<noteq> expected_uid then throw InsecureOwnership else return ())"

definition ensure_owned_by_root :: "env \<Rightarrow> path \<Rightarrow> unit helper" where
  "ensure_owned_by_root e p = validate_owner e p ROOT_UID"

definition ensure_not_group_or_world_writable :: "env \<Rightarrow> path \<Rightarrow> unit helper" where
  "ensure_not_group_or_world_writable e p =
     bind (map_err (io p) (symlink_metadata e p)) (\<lambda>i.
     let mode = perm i AND 0x1FF in
     if mode AND GROUP_OR_OTHER_WRITABLE \<noteq> 0 then throw InsecurePermissions else return ())"

definition validate_mode_at_most :: "env \<Rightarrow> path \<Rightarrow> u32 \<Rightarrow> unit helper" where
  "validate_mode_at_most e p allowed_mode =
     bind (map_err (io p) (symlink_metadata e p)) (\<lambda>i.
     let mode = perm i AND 0x1FF in
     if mode AND NOT (allowed_mode AND 0x1FF) \<noteq> 0 then throw InsecurePermissions else return ())"

definition validate_trusted_file :: "env \<Rightarrow> path \<Rightarrow> u32 \<Rightarrow> unit helper" where
  "validate_trusted_file e p allowed_mode =
     seq (ensure_not_symlink e p)
     (seq (ensure_owned_by_root e p)
     (seq (validate_mode_at_most e p allowed_mode) (return ())))"

section \<open>Atomic replacement\<close>

text \<open>
  The states \<open>secure_write\<close> can leave behind or pass through: the old file system, perhaps
  with one more temporary file, or the old file system with the target replaced.
\<close>

definition staged :: "env \<Rightarrow> path \<Rightarrow> fs \<Rightarrow> fs \<Rightarrow> bool" where
  "staged e p f g \<longleftrightarrow> g = f \<or>
     (\<exists>n dir lt d m. parent_of p = Inr dir \<and> resolve e f False (tmp_path e n dir) = Inr lt \<and> f lt = None
        \<and> g = f(lt \<mapsto> new_file e d m))"

definition installed :: "env \<Rightarrow> path \<Rightarrow> bytes \<Rightarrow> u32 \<Rightarrow> fs \<Rightarrow> fs \<Rightarrow> bool" where
  "installed e p c m f g \<longleftrightarrow>
     (\<exists>l. resolve e f False p = Inr l \<and> \<not> dir_at f l \<and> g = f(l \<mapsto> new_file e c m))"

lemma wp_fsync_dir:
  "wp (fsync_dir e dir) (\<lambda>r w'. fs w' = fs w \<and> passed S w w'
     \<and> (case r of Ok _ \<Rightarrow> True | Err x \<Rightarrow> \<exists>k. x = Io k | Abort _ \<Rightarrow> False)) w"
  by (auto simp: fsync_dir_def fs_open_def wp_simps split: option.splits sum.splits)

lemma rename_tmp:
  assumes "f lt = None" and "resolve e f False tp = Inr lt"
    and "fs w = f(lt \<mapsto> new_file e c m)"
  shows "wp (fs_rename e tp p)
     (\<lambda>r w'. (case r of
        Ok _ \<Rightarrow> installed e p c m f (fs w') \<and> passed (installed e p c m f) w w'
      | Err _ \<Rightarrow> fs w' = fs w \<and> passed (installed e p c m f) w w' | Abort _ \<Rightarrow> False)) w"
proof -
  have src: "lookup e (fs w) False tp = Inr (lt, new_file e c m)"
    using assms by (simp add: lookup_plain_upd)
  have dst: "resolve e f False p = Inr l" if "resolve e (fs w) False p = Inr l" for l
    using that assms by (simp add: resolve_plain_upd)
  have inst: "installed e p c m f (fs w)" if "resolve e f False p = Inr lt"
    using that assms by (auto simp: installed_def dir_at_def)
  have inst': "installed e p c m f ((fs w)(lt := None, l \<mapsto> new_file e c m))"
    if "resolve e f False p = Inr l" "l \<noteq> lt" "\<not> dir_at (fs w) l" for l
    using that assms unfolding installed_def
    by (intro exI [of _ l]) (auto simp: fun_eq_iff dir_at_def split: option.splits)
  show ?thesis
    using inst inst' src
    by (auto simp: fs_rename_def wp_simps dir_at_def passed_set_fs dest!: dst
        split: option.splits sum.splits if_splits)
qed

lemma wp_atomic_replace_tmp:
  assumes "f lt = None" and "resolve e f False tp = Inr lt"
    and "fs w = f(lt \<mapsto> new_file e c m)" and dir: "parent_of p = Inr dir"
  shows "wp (atomic_replace e tp p)
     (\<lambda>r w'. passed (installed e p c m f) w w' \<and> (case r of
        Ok _ \<Rightarrow> installed e p c m f (fs w')
      | Err x \<Rightarrow> (fs w' = fs w \<or> installed e p c m f (fs w')) \<and> (\<exists>k. x = Io k) | Abort _ \<Rightarrow> False)) w"
  unfolding atomic_replace_def
  by (simp add: dir wp_simps, rule wp_weaken [OF rename_tmp [OF assms(1-3), of p]])
    (auto split: ret.splits intro!: wp_weaken [OF wp_fsync_dir [where S = "installed e p c m f"]]
      elim: passed_trans)

lemma wp_stage_tmp:
  assumes "f lt = None" and "resolve e f False tp = Inr lt"
    and "tp = tmp_path e n dir" and dir: "parent_of p = Inr dir"
    and "fs w = f(lt \<mapsto> new_file e [] m0)"
  shows "wp (drop_on_error e tp
            (seq (map_err Io (file_set_permissions e lt m))
            (seq (map_err Io (file_write_all e lt c))
                 (map_err Io (sync_all e lt)))))
     (\<lambda>r w'. passed (staged e p f) w w' \<and> (case r of
        Ok _ \<Rightarrow> fs w' = f(lt \<mapsto> new_file e c m)
      | Err x \<Rightarrow> staged e p f (fs w') \<and> (\<exists>k. x = Io k) | Abort _ \<Rightarrow> False)) w"
proof -
  have st: "staged e p f (f(lt \<mapsto> new_file e d m'))" for d m'
    using assms unfolding staged_def by blast
  have st0: "staged e p f f" by (simp add: staged_def)
  have look: "lookup e (f(lt \<mapsto> new_file e d m')) False tp = Inr (lt, new_file e d m')" for d m'
    using assms by (simp add: lookup_plain_upd)
  have upd: "f(lt := None) = f" using assms(1) by auto
  show ?thesis
    by (auto simp: drop_on_error_def wp_simps file_set_permissions_def fs_remove_file_def assms(5) look
        upd st st0 passed_def split: option.splits)
qed

lemma wp_secure_write:
  "wp (secure_write e p c m)
     (\<lambda>r w'. passed (\<lambda>g. staged e p (fs w) g \<or> installed e p c m (fs w) g) w w'
        \<and> (case r of Ok _ \<Rightarrow> installed e p c m (fs w) (fs w')
           | Err x \<Rightarrow> staged e p (fs w) (fs w') \<or> (installed e p c m (fs w) (fs w') \<and> (\<exists>k. x = Io k))
           | Abort _ \<Rightarrow> False)) w"
  (is "wp _ (?Q w) w")
proof (cases "parent_of p")
  case (Inl x)
  then show ?thesis by (simp add: secure_write_def wp_simps staged_def)
next
  case (Inr dir)
  let ?f = "fs w" let ?tp = "tmp_path e (tick w) dir"
  let ?S = "\<lambda>g. staged e p ?f g \<or> installed e p c m ?f g"
  have st0: "staged e p ?f ?f" by (simp add: staged_def)
  show ?thesis
  proof (cases "fault e (tick w) = None \<and> (\<exists>lt. resolve e ?f False ?tp = Inr lt \<and> ?f lt = None)")
    case False
    with Inr st0 show ?thesis
      by (auto simp: secure_write_def wp_simps split: option.splits sum.splits)
  next
    case True
    then obtain lt where lt: "fault e (tick w) = None" "resolve e ?f False ?tp = Inr lt" "?f lt = None" by blast
    define w1 where "w1 = set_fs (?f(lt \<mapsto> new_file e [] (0x180 AND NOT (umask e)))) (count_call e w)"
    have w1: "fs w1 = ?f(lt \<mapsto> new_file e [] (0x180 AND NOT (umask e)))"
      by (simp add: w1_def)
    have p1: "passed ?S w w1"
      unfolding w1_def using lt Inr by (intro passed_set_fs) (auto simp: staged_def)
    have "wp (seq (drop_on_error e ?tp
            (seq (map_err Io (file_set_permissions e lt m))
            (seq (map_err Io (file_write_all e lt c)) (map_err Io (sync_all e lt)))))
         (atomic_replace e ?tp p))
      (\<lambda>r w'. passed ?S w1 w'
        \<and> (case r of Ok _ \<Rightarrow> installed e p c m ?f (fs w')
           | Err x \<Rightarrow> staged e p ?f (fs w') \<or> (installed e p c m ?f (fs w') \<and> (\<exists>k. x = Io k))
           | Abort _ \<Rightarrow> False)) w1"
      unfolding wp_seq
    proof (rule wp_weaken [OF wp_stage_tmp [OF lt(3) lt(2) refl Inr w1]], goal_cases)
      case (1 r w2)
      then have p2: "passed ?S w1 w2" by (auto elim: passed_mono)
      have stg: "staged e p ?f (?f(lt \<mapsto> new_file e c m))" using lt Inr by (auto simp: staged_def)
      show ?case
      proof (cases r)
        case (Ok a)
        with 1 have f2: "fs w2 = ?f(lt \<mapsto> new_file e c m)" by auto
        have p3: "passed ?S w1 w'" if "passed (installed e p c m ?f) w2 w'" for w'
          using passed_trans [OF p2 passed_mono [OF that]] by auto
        from wp_atomic_replace_tmp [OF lt(3) lt(2) f2 Inr] Ok f2 stg show ?thesis
          by (auto elim!: wp_weaken intro: p3 split: ret.splits)
      qed (use 1 p2 in auto)
    qed
    note run = this
    have step: "passed ?S w w'" if "passed ?S w1 w'" for w' using passed_trans [OF p1 that] .
    show ?thesis
      by (simp add: secure_write_def Inr wp_bind wp_return wp_map_err wp_tempfile_new_in lt flip: w1_def)
        (rule wp_weaken [OF run], use step in auto)
  qed
qed


text \<open>
  Against \<open>f\<close>, \<open>g\<close> differs at most at the target, which holds the new content and mode, and at
  the location of the temporary file, which \<open>f\<close> does not use.
\<close>

definition tmp_loc :: "env \<Rightarrow> path \<Rightarrow> fs \<Rightarrow> loc \<Rightarrow> bool" where
  "tmp_loc e p f l \<longleftrightarrow> f l = None \<and>
     (case parent_of p of Inl _ \<Rightarrow> False | Inr dir \<Rightarrow> \<exists>n. resolve e f False (tmp_path e n dir) = Inr l)"

definition replaces :: "env \<Rightarrow> path \<Rightarrow> bytes \<Rightarrow> u32 \<Rightarrow> fs \<Rightarrow> fs \<Rightarrow> bool" where
  "replaces e p c m f g \<longleftrightarrow>
     (\<forall>l. g l = f l \<or> (resolve e f False p = Inr l \<and> g l = Some (new_file e c m)) \<or> tmp_loc e p f l)"

lemma staged_replaces: "staged e p f g \<Longrightarrow> replaces e p c m f g"
  by (auto simp: staged_def replaces_def tmp_loc_def split: if_splits)

lemma installed_replaces: "installed e p c m f g \<Longrightarrow> replaces e p c m f g"
  by (auto simp: installed_def replaces_def split: if_splits)

text \<open>
  C9 (safety). Atomic replacement. Whatever calls fail and wherever, in every state the file
  system passes through during \<open>secure_write\<close> and in the one it leaves behind, each location is
  as before, or is the target with exactly the new bytes and mode, or is the temporary file at a
  name nothing used. A result \<open>Ok\<close> means the target was replaced and nothing else differs; an
  error means the target was replaced (only the directory flush failed) or no existing file
  changed; and the function always returns.
\<close>

theorem secure_write_atomic:
  "wp (secure_write e p c m) (\<lambda>r w'.
      passed (replaces e p c m (fs w)) w w'
    \<and> (case r of Ok _ \<Rightarrow> installed e p c m (fs w) (fs w')
       | Err x \<Rightarrow> staged e p (fs w) (fs w') \<or> installed e p c m (fs w) (fs w')
       | Abort _ \<Rightarrow> False)) w"
  by (rule wp_weaken [OF wp_secure_write])
    (auto elim!: passed_mono intro: staged_replaces installed_replaces split: ret.splits)

lemma secure_write_until_flush:
  assumes nf: "\<And>k. k < 6 \<Longrightarrow> fault e (tick w + k) = None" and dir: "parent_of p = Inr dir"
    and dirl: "resolve e (fs w) True dir = Inr ld" "dir_at (fs w) ld"
    and tmp: "resolve e (fs w) False (tmp_path e (tick w) dir) = Inr lt" "fs w lt = None"
    and tgt: "resolve e (fs w) False p = Inr l" "plain (fs w) l" "l \<noteq> lt"
  shows "wp (secure_write e p c m) (\<lambda>r w'. fs w' = (fs w)(l \<mapsto> new_file e c m)
     \<and> (\<exists>evs. trace w' = trace w @
         [Mutated ((fs w)(lt \<mapsto> new_file e [] (0x180 AND NOT (umask e)))),
          Mutated ((fs w)(lt \<mapsto> new_file e [] m)),
          Mutated ((fs w)(lt \<mapsto> new_file e c m)), Synced lt,
          Mutated ((fs w)(l \<mapsto> new_file e c m))] @ evs
        \<and> (case fault e (tick w + 6) of None \<Rightarrow> r = Ok () \<and> evs = [Synced ld]
            | Some n \<Rightarrow> r = Err (Io (OsError n)) \<and> evs = []))) w"
proof -
  let ?g = "(fs w)(lt \<mapsto> new_file e c m)" and ?h = "(fs w)(l \<mapsto> new_file e c m)"
  have upd: "(fs w)(lt := None, l \<mapsto> new_file e c m) = ?h"
    using tmp(2) tgt(3) by (auto simp: fun_eq_iff)
  have src: "lookup e ?g False (tmp_path e (tick w) dir) = Inr (lt, new_file e c m)"
    using tmp by (simp add: lookup_plain_upd)
  have dst: "resolve e ?g False p = Inr l" using tmp tgt by (simp add: resolve_plain_upd)
  have nd: "\<not> (case fs w l of None \<Rightarrow> False | Some i' \<Rightarrow> kind i' = Directory)"
    using tgt(2,3) by (simp add: plain_def dir_at_def)
  have ld: "ld \<noteq> l" "ld \<noteq> lt" using dirl(2) tgt(2) tmp(2) by (auto simp: plain_def dir_at_def)
  have "resolve e ?h True dir = Inr ld" using dirl tgt by (simp add: resolve_plain_upd)
  with dirl(2) ld obtain i where op: "lookup e ?h True dir = Inr (ld, i)" "kind i = Directory"
    by (auto simp: lookup_def dir_at_def split: option.splits)
  have F: "fault e (tick w) = None" "fault e (Suc (tick w)) = None" "fault e (Suc (Suc (tick w))) = None"
    "fault e (Suc (Suc (Suc (tick w)))) = None" "fault e (Suc (Suc (Suc (Suc (tick w))))) = None"
    "fault e (Suc (Suc (Suc (Suc (Suc (tick w)))))) = None"
    using nf [of 0] nf [of 1] nf [of "Suc 1"] nf [of "Suc (Suc 1)"] nf [of "Suc (Suc (Suc 1))"]
      nf [of "Suc (Suc (Suc (Suc 1)))"] by simp_all
  have six: "tick w + 6 = Suc (Suc (Suc (Suc (Suc (Suc (tick w))))))" by simp
  show ?thesis
    unfolding six using op(2) tgt(3)
    by (simp add: secure_write_def drop_on_error_def atomic_replace_def fsync_dir_def fs_open_def
        file_set_permissions_def fs_rename_def wp_simps F dir tmp src dst nd upd op(1) split: option.splits)
qed

lemma secure_write_done:
  assumes "fault e = (\<lambda>_. None)" and dir: "parent_of p = Inr dir"
    and dirl: "resolve e (fs w) True dir = Inr ld" "dir_at (fs w) ld"
    and tmp: "resolve e (fs w) False (tmp_path e (tick w) dir) = Inr lt" "fs w lt = None"
    and tgt: "resolve e (fs w) False p = Inr l" "plain (fs w) l" "l \<noteq> lt"
  shows "\<exists>w'. secure_write e p c m w = (Ok (), w')
     \<and> fs w' = (fs w)(l \<mapsto> new_file e c m)
     \<and> trace w' = trace w @
         [Mutated ((fs w)(lt \<mapsto> new_file e [] (0x180 AND NOT (umask e)))),
          Mutated ((fs w)(lt \<mapsto> new_file e [] m)),
          Mutated ((fs w)(lt \<mapsto> new_file e c m)), Synced lt,
          Mutated ((fs w)(l \<mapsto> new_file e c m)), Synced ld]"
  using secure_write_until_flush [OF _ dir dirl tmp tgt, of c m] assms(1)
  by (auto simp: wp_def split: prod.splits)

text \<open>
  C21 (functional). With no failing call, a free temporary name and a target that is not a
  directory, \<open>secure_write\<close> succeeds, and in this order: the temporary file gets its final mode
  while it is empty, then the content, then it is flushed; only then the rename puts it at the
  target, and last the directory is flushed.
\<close>

theorem secure_write_steps:
  assumes "fault e = (\<lambda>_. None)" and dir: "parent_of p = Inr dir"
    and dirl: "resolve e (fs w) True dir = Inr ld" "dir_at (fs w) ld"
    and tmp: "resolve e (fs w) False (tmp_path e (tick w) dir) = Inr lt" "fs w lt = None"
    and tgt: "resolve e (fs w) False p = Inr l" "plain (fs w) l" "l \<noteq> lt"
  shows "\<exists>w'. secure_write e p c m w = (Ok (), w')
     \<and> fs w' = (fs w)(l \<mapsto> new_file e c m)
     \<and> trace w' = trace w @
         [Mutated ((fs w)(lt \<mapsto> new_file e [] (0x180 AND NOT (umask e)))),
          Mutated ((fs w)(lt \<mapsto> new_file e [] m)),
          Mutated ((fs w)(lt \<mapsto> new_file e c m)), Synced lt,
          Mutated ((fs w)(l \<mapsto> new_file e c m)), Synced ld]"
  by (rule secure_write_done [OF assms])

theorem secure_write_steps_witness:
  "\<exists>w'. secure_write host_env [RootDir, Normal (lit ''etc''), Normal (lit ''ca'')] [1, 2, 3] MODE_PUBLIC (host [])
        = (Ok (), w')
     \<and> fs w' = (host_fs [])([lit ''etc'', lit ''ca''] \<mapsto> new_file host_env [1, 2, 3] MODE_PUBLIC)"
  using secure_write_steps [of host_env "[RootDir, Normal (lit ''etc''), Normal (lit ''ca'')]"
      "[RootDir, Normal (lit ''etc'')]" "host []" "[lit ''etc'']" "[lit ''etc'', lit ''.tmpA1'']"
      "[lit ''etc'', lit ''ca'']" "[1, 2, 3]" MODE_PUBLIC]
  by (auto simp: host_eval parent_of_def)

text \<open>
  C20 (error). A failure of the last call alone, the flush of the directory, is reported as an
  error although the target has been replaced already: an error of \<open>secure_write\<close> does not mean
  that the old file is in place.
\<close>

theorem secure_write_flush_failure:
  assumes "fault e = (\<lambda>n. if n = tick w + 6 then Some k else None)" and "parent_of p = Inr dir"
    and "resolve e (fs w) True dir = Inr ld" and "dir_at (fs w) ld"
    and "resolve e (fs w) False (tmp_path e (tick w) dir) = Inr lt" and "fs w lt = None"
    and "resolve e (fs w) False p = Inr l" and "plain (fs w) l" and "l \<noteq> lt"
  shows "\<exists>w'. secure_write e p c m w = (Err (Io (OsError k)), w') \<and> fs w' = (fs w)(l \<mapsto> new_file e c m)"
  using secure_write_until_flush [OF _ assms(2-9), of c m] assms(1)
  by (auto simp: wp_def split: prod.splits)

theorem secure_write_flush_failure_witness:
  "\<exists>w'. secure_write (host_env\<lparr>fault := (\<lambda>n. if n = 6 then Some 5 else None)\<rparr>)
        [RootDir, Normal (lit ''etc''), Normal (lit ''ca'')] [1, 2, 3] MODE_PUBLIC (host [])
      = (Err (Io (OsError 5)), w')
     \<and> fs w' [lit ''etc'', lit ''ca''] \<noteq> None"
  using secure_write_flush_failure [of "host_env\<lparr>fault := (\<lambda>n. if n = 6 then Some 5 else None)\<rparr>" "host []" 5
      "[RootDir, Normal (lit ''etc''), Normal (lit ''ca'')]"
      "[RootDir, Normal (lit ''etc'')]" "[lit ''etc'']" "[lit ''etc'', lit ''.tmpA1'']"
      "[lit ''etc'', lit ''ca'']" "[1, 2, 3]" MODE_PUBLIC]
  by (auto simp: host_eval parent_of_def)

section \<open>Checks\<close>

definition no_link :: "env \<Rightarrow> path \<Rightarrow> fs \<Rightarrow> bool" where
  "no_link e p f \<longleftrightarrow> (\<forall>l t. resolve e f False p = Inr l \<longrightarrow> \<not> link_at f l t)"

lemma wp_ensure_not_symlink:
  "wp (ensure_not_symlink e p) (\<lambda>r w'. fs w' = fs w \<and> trace w' = trace w
     \<and> (case r of Ok _ \<Rightarrow> no_link e p (fs w)
        | Err x \<Rightarrow> x = UnexpectedSymlink \<or> (\<exists>k. x = Io k) | Abort _ \<Rightarrow> False)) w"
  by (auto simp: ensure_not_symlink_def is_symlink_def symlink_metadata_def wp_simps no_link_def
      map_sum_def lookup_def link_at_def split: option.splits sum.splits fkind.splits)

lemma stays_ensure_not_symlink [stays_intros]: "stays I (ensure_not_symlink e p)"
  unfolding ensure_not_symlink_def is_symlink_def by (intro stays_intros)

lemma stays_ensure_not_writable [stays_intros]: "stays I (ensure_not_group_or_world_writable e p)"
  unfolding ensure_not_group_or_world_writable_def Let_def by (intro stays_intros)

lemma ran_checks [stays_intros]:
  "always (ran C) (ensure_not_symlink e p)" "always (ran C) (ensure_not_group_or_world_writable e p)"
  unfolding ensure_not_symlink_def is_symlink_def ensure_not_group_or_world_writable_def Let_def
  by (intro stays_intros)+

lemma ran_secure_write [stays_intros]: "always (ran C) (secure_write e p c m)"
  unfolding secure_write_def drop_on_error_def atomic_replace_def fsync_dir_def split_def
  by (intro stays_intros)

text \<open>The write bits of group and others are the bits 4 and 1.\<close>

lemma group_or_other_writable:
  "((x::u32) AND 0x1FF) AND GROUP_OR_OTHER_WRITABLE = 0 \<longleftrightarrow> \<not> bit x 4 \<and> \<not> bit x 1"
proof -
  have m: "(x AND 0x1FF) AND GROUP_OR_OTHER_WRITABLE = x AND 18"
    by (simp add: GROUP_OR_OTHER_WRITABLE_def and.assoc)
  have e: "(18::u32) = 2 ^ 4 OR 2 ^ 1" by simp
  have b: "bit (18::u32) n \<longleftrightarrow> n = 4 \<or> n = 1" for n
    unfolding e bit_or_iff bit_exp_iff by auto
  have z: "y = 0 \<longleftrightarrow> (\<forall>n. \<not> bit y n)" for y :: u32
    by (metis bit_0_eq bit_eqI bot_apply bot_bool_def)
  show ?thesis unfolding m z bit_and_iff b by auto
qed

definition not_writable :: "env \<Rightarrow> path \<Rightarrow> fs \<Rightarrow> bool" where
  "not_writable e p f \<longleftrightarrow>
     (\<exists>l i. lookup e f False p = Inr (l, i) \<and> \<not> bit (perm i) 4 \<and> \<not> bit (perm i) 1)"

lemma wp_ensure_not_writable:
  "wp (ensure_not_group_or_world_writable e p) (\<lambda>r w'. fs w' = fs w \<and> trace w' = trace w
     \<and> (case r of Ok _ \<Rightarrow> not_writable e p (fs w)
        | Err x \<Rightarrow> x = InsecurePermissions \<or> (\<exists>k. x = Io k) | Abort _ \<Rightarrow> False)) w"
  by (auto simp: ensure_not_group_or_world_writable_def symlink_metadata_def wp_simps Let_def map_sum_def
      group_or_other_writable not_writable_def split: option.splits sum.splits)

lemma mode_subset: "((x::u32) AND 0x1FF) AND NOT (a AND 0x1FF) = 0 \<longleftrightarrow> (\<forall>n < 9. bit x n \<longrightarrow> bit a n)"
proof -
  have m: "(0x1FF :: u32) = mask 9" by (simp add: mask_eq_exp_minus_1)
  show ?thesis unfolding m by (auto simp: bit_eq_iff bit_simps)
qed

lemmas mode_subset_simp = mode_subset [simplified]

lemma wp_validate_trusted_file:
  "wp (validate_trusted_file e p a) (\<lambda>r w'. fs w' = fs w \<and> trace w' = trace w
     \<and> (case r of
         Ok _ \<Rightarrow> \<exists>l i. lookup e (fs w) False p = Inr (l, i) \<and> (\<forall>t. kind i \<noteq> Link t) \<and> owner i = 0
                  \<and> (\<forall>n < 9. bit (perm i) n \<longrightarrow> bit a n)
       | Err x \<Rightarrow> x \<in> range Io \<union> {UnexpectedSymlink, InsecureOwnership, InsecurePermissions}
       | Abort _ \<Rightarrow> False)) w"
  by (auto simp: validate_trusted_file_def ensure_not_symlink_def is_symlink_def ensure_owned_by_root_def
      validate_owner_def validate_mode_at_most_def symlink_metadata_def wp_simps ROOT_UID_def Let_def
      map_sum_def mode_subset_simp split: option.splits sum.splits fkind.splits)

text \<open>
  When no call fails, \<open>validate_trusted_file\<close> accepts exactly the paths whose
  own node (a link is not followed) exists, is no symbolic link, is owned by root and has none
  of the nine permission bits outside the allowed mode.
\<close>

theorem validate_trusted_file_iff:
  assumes "fault e = (\<lambda>_. None)"
  shows "fst (validate_trusted_file e p a w) = Ok () \<longleftrightarrow>
     (\<exists>l i. lookup e (fs w) False p = Inr (l, i) \<and> (\<forall>t. kind i \<noteq> Link t) \<and> owner i = 0
        \<and> (\<forall>n < 9. bit (perm i) n \<longrightarrow> bit a n))"
  using assms
  by (auto simp: validate_trusted_file_def ensure_not_symlink_def is_symlink_def ensure_owned_by_root_def
      validate_owner_def validate_mode_at_most_def symlink_metadata_def ROOT_UID_def Let_def act_simps
      query_def map_sum_def mode_subset_simp split: option.splits sum.splits fkind.splits prod.splits)

theorem validate_trusted_file_iff_witness:
  "fst (validate_trusted_file host_env [RootDir, Normal (lit ''etc''), Normal (lit ''ssh''),
          Normal (lit ''sshd_config'')] MODE_PUBLIC (host [])) = Ok ()"
proof -
  have "lookup host_env (host_fs []) False [RootDir, Normal (lit ''etc''), Normal (lit ''ssh''),
          Normal (lit ''sshd_config'')] = Inr ([lit ''etc'', lit ''ssh'', lit ''sshd_config''], file_node [])"
    by (simp add: host_eval)
  then show ?thesis
    by (simp add: validate_trusted_file_iff file_node_def MODE_PUBLIC_def)
qed

end
