(* ===== verification/Trusted_Ca.thy ===== *)
theory Trusted_Ca
  imports Errors
begin

text \<open>
  \<^verbatim>\<open>src/ssh/trusted_ca.rs\<close>: the structural gate in front of the \<^verbatim>\<open>TrustedUserCAKeys\<close> file.
  The definitions follow the module's functions; the lemmas show that the base64 test is the
  RFC 4648 grammar, which lines are accepted and what a parsed key holds, and that rendering
  and parsing are inverse on everything the parser accepts.
\<close>

section \<open>Definitions\<close>

definition ALLOWED_ALGORITHMS :: "rstr list" where
  "ALLOWED_ALGORITHMS = map lit
     [''ssh-ed25519'', ''ssh-rsa'', ''rsa-sha2-256'', ''rsa-sha2-512'',
      ''ecdsa-sha2-nistp256'', ''ecdsa-sha2-nistp384'', ''ecdsa-sha2-nistp521'',
      ''sk-ssh-ed25519@openssh.com'', ''sk-ecdsa-sha2-nistp256@openssh.com'']"

record ca_public_key =
  algorithm :: rstr
  key_data :: rstr
  comment :: "rstr option"

record trusted_ca_keys =
  keys :: "ca_public_key list"

definition is_base64_char :: "u8 \<Rightarrow> bool" where
  "is_base64_char b \<longleftrightarrow>
     (48 \<le> b \<and> b \<le> 57) \<or> (65 \<le> b \<and> b \<le> 90) \<or> (97 \<le> b \<and> b \<le> 122) \<or> b = 43 \<or> b = 47"

text \<open>The loop over the enumerated bytes; \<open>i\<close> is the index of the head.\<close>

fun base64_scan :: "nat \<Rightarrow> nat \<Rightarrow> bytes \<Rightarrow> bool" where
  "base64_scan body_len i [] = True"
| "base64_scan body_len i (b # bs) =
     (if body_len \<le> i then (if b \<noteq> 61 then False else base64_scan body_len (Suc i) bs)
      else if \<not> is_base64_char b then False
      else base64_scan body_len (Suc i) bs)"

definition is_valid_base64 :: "rstr \<Rightarrow> bool" where
  "is_valid_base64 s =
     (if s = [] \<or> str_len s mod 4 \<noteq> 0 then False
      else let bs = as_bytes s;
               padding = length (takeWhile (\<lambda>b. b = 61) (rev bs))
           in if 2 < padding then False
              else let body_len = length bs - padding
                   in base64_scan body_len 0 bs \<and> 0 < body_len)"

definition collect_comment :: "rstr \<Rightarrow> rstr \<Rightarrow> rstr \<Rightarrow> rstr option" where
  "collect_comment line algo kdata =
     (case strip_prefix algo (trim_start line) of None \<Rightarrow> None
      | Some r \<Rightarrow> (case strip_prefix kdata (trim_start r) of None \<Rightarrow> None
          | Some r' \<Rightarrow> (let after_key = trim r' in if after_key = [] then None else Some after_key)))"

definition CaPublicKey_parse :: "rstr \<Rightarrow> trusted_ca_error + ca_public_key" where
  "CaPublicKey_parse line =
     (if list_ex is_control line then Inl IllegalCharacter
      else let trimmed = trim line in
        if trimmed = [] then Inl Empty
        else case split_whitespace trimmed of
               [] \<Rightarrow> Inl Malformed
             | [_] \<Rightarrow> Inl Malformed
             | algo # kdata # _ \<Rightarrow>
                 (let c = collect_comment trimmed algo kdata in
                  if algo \<notin> set ALLOWED_ALGORITHMS then Inl DisallowedAlgorithm
                  else if \<not> is_valid_base64 kdata then Inl InvalidEncoding
                  else Inr \<lparr>algorithm = algo, key_data = kdata, comment = c\<rparr>))"

definition CaPublicKey_render :: "ca_public_key \<Rightarrow> rstr" where
  "CaPublicKey_render k =
     (case comment k of
        Some c \<Rightarrow> algorithm k @ [32] @ key_data k @ [32] @ c
      | None \<Rightarrow> algorithm k @ [32] @ key_data k)"

fun parse_lines :: "ca_public_key list \<Rightarrow> rstr list \<Rightarrow> error + trusted_ca_keys" where
  "parse_lines acc [] = Inr \<lparr>keys = acc\<rparr>"
| "parse_lines acc (line # ls) =
     (let trimmed = trim line in
      if trimmed = [] \<or> starts_with 35 trimmed then parse_lines acc ls
      else case CaPublicKey_parse line of
             Inl e \<Rightarrow> Inl (InvalidTrustedCa e)
           | Inr key \<Rightarrow> parse_lines (acc @ [key]) ls)"

definition TrustedCaKeys_parse :: "rstr \<Rightarrow> error + trusted_ca_keys" where
  "TrustedCaKeys_parse contents = parse_lines [] (str_lines contents)"

definition TrustedCaKeys_keys :: "trusted_ca_keys \<Rightarrow> ca_public_key list" where
  "TrustedCaKeys_keys t = keys t"

definition TrustedCaKeys_len :: "trusted_ca_keys \<Rightarrow> nat" where
  "TrustedCaKeys_len t = length (keys t)"

definition TrustedCaKeys_is_empty :: "trusted_ca_keys \<Rightarrow> bool" where
  "TrustedCaKeys_is_empty t \<longleftrightarrow> keys t = []"

definition TrustedCaKeys_render :: "trusted_ca_keys \<Rightarrow> rstr" where
  "TrustedCaKeys_render t =
     (if keys t = [] then [] else foldl (\<lambda>out k. out @ CaPublicKey_render k @ [10]) [] (keys t))"

section \<open>Base64\<close>

text \<open>RFC 4648, section 4: the alphabet and the shape of a padded encoding.\<close>

definition base64_alphabet :: rstr where
  "base64_alphabet =
     lit ''ABCDEFGHIJKLMNOPQRSTUVWXYZabcdefghijklmnopqrstuvwxyz0123456789+/''"

definition base64_grammar :: "rstr \<Rightarrow> bool" where
  "base64_grammar s \<longleftrightarrow>
     (\<exists>body pad. s = body @ pad \<and> body \<noteq> [] \<and> set body \<subseteq> set base64_alphabet
        \<and> pad \<in> {[], [61], [61, 61]} \<and> length s mod 4 = 0)"

lemma base64_alphabet_upt: "base64_alphabet = [65..<91] @ [97..<123] @ [48..<58] @ [43, 47]"
  by (simp add: base64_alphabet_def lit_def)

lemma base64_alphabet_iff:
  "c \<in> set base64_alphabet \<longleftrightarrow>
     (48 \<le> c \<and> c \<le> 57) \<or> (65 \<le> c \<and> c \<le> 90) \<or> (97 \<le> c \<and> c \<le> 122) \<or> c = 43 \<or> c = 47"
  by (auto simp: base64_alphabet_upt simp del: upt_rec_numeral)

lemma is_base64_char_of_nat:
  "c < 128 \<Longrightarrow> is_base64_char (of_nat c) \<longleftrightarrow> c \<in> set base64_alphabet"
  by (simp add: is_base64_char_def base64_alphabet_iff word_le_nat_alt unat_of_nat
      word_unat_eq_iff)

lemma base64_scan_iff:
  "base64_scan n i bs \<longleftrightarrow>
     (\<forall>b \<in> set (take (n - i) bs). is_base64_char b) \<and> (\<forall>b \<in> set (drop (n - i) bs). b = 61)"
proof (induction bs arbitrary: i)
  case (Cons b bs)
  show ?case
  proof (cases "n \<le> i")
    case True
    then have "n - i = 0" "n - Suc i = 0" by auto
    with True show ?thesis by (simp add: Cons.IH)
  next
    case False
    then have "n - i = Suc (n - Suc i)" by simp
    with False show ?thesis by (simp add: Cons.IH)
  qed
qed simp

lemma takeWhile_replicate_append:
  "takeWhile (\<lambda>b. b = x) (replicate n x @ ys) = replicate n x @ takeWhile (\<lambda>b. b = x) ys"
  by (induction n) auto

lemma takeWhile_rev_replicate:
  "body = [] \<or> last body \<noteq> x \<Longrightarrow> takeWhile (\<lambda>b. b = x) (rev (body @ replicate n x)) = replicate n x"
  by (cases body rule: rev_cases) (simp_all add: takeWhile_replicate_append)

lemma trailing_split:
  "\<exists>body. bs = body @ replicate (length (takeWhile (\<lambda>b. b = x) (rev bs))) x \<and> (body = [] \<or> last body \<noteq> x)"
proof -
  let ?t = "takeWhile (\<lambda>b. b = x) (rev bs)" and ?d = "dropWhile (\<lambda>b. b = x) (rev bs)"
  have "bs = rev ?d @ rev ?t" by (metis rev_append rev_rev_ident takeWhile_dropWhile_id)
  moreover have "?t = replicate (length ?t) x"
    by (metis (mono_tags) replicate_eqI set_takeWhileD)
  then have "rev ?t = replicate (length ?t) x" by (metis rev_replicate)
  moreover have "rev ?d = [] \<or> last (rev ?d) \<noteq> x"
    using hd_dropWhile_not [of "\<lambda>b. b = x" "rev bs"] by (auto simp: last_rev)
  ultimately show ?thesis by metis
qed

lemma base64_bytes_ascii:
  assumes "\<forall>b \<in> set (as_bytes s). is_base64_char b \<or> b = 61"
  shows "\<forall>c \<in> set s. c < 128"
proof (rule all_ascii_bytes, rule ballI)
  fix b assume "b \<in> set (as_bytes s)"
  with assms have "is_base64_char b \<or> b = 61" by blast
  then show "unat b < 128"
    by (auto simp: is_base64_char_def word_le_nat_alt)
qed

text \<open>The byte loop decides the grammar.\<close>

lemma base64_ascii_iff:
  assumes ascii: "\<forall>c \<in> set s. c < 128"
  shows "is_valid_base64 s \<longleftrightarrow> base64_grammar s"
proof -
  obtain body p where body: "s = body @ replicate p 61" "body = [] \<or> last body \<noteq> 61"
    using trailing_split [of s 61] by blast
  then have p: "length (takeWhile (\<lambda>c. c = 61) (rev s)) = p"
    using takeWhile_rev_replicate [of body 61 p] by simp
  have bs: "as_bytes s = map of_nat s" using ascii by (rule as_bytes_ascii)
  have inj: "(of_nat c :: u8) = 61 \<longleftrightarrow> c = 61" if "c < 128" for c
    using that by (simp add: word_unat_eq_iff unat_of_nat)
  have "takeWhile (\<lambda>c. (of_nat c :: u8) = 61) (rev s) = takeWhile (\<lambda>c. c = 61) (rev s)"
    using ascii inj by (intro takeWhile_cong) auto
  then have pad: "length (takeWhile (\<lambda>b. b = 61) (rev (as_bytes s))) = p"
    by (simp add: bs rev_map takeWhile_map comp_def p)
  have sb: "as_bytes s = map of_nat body @ replicate p 61" using bs unfolding body(1) by simp
  have len: "str_len s = length s" "length (as_bytes s) - p = length body"
    by (simp add: str_len_def bs, simp add: sb)
  have "\<forall>c \<in> set body. c < 128" using ascii body(1) by auto
  then have scan: "base64_scan (length body) 0 (as_bytes s) \<longleftrightarrow> set body \<subseteq> set base64_alphabet"
    by (auto simp: sb base64_scan_iff is_base64_char_of_nat)
  have "is_valid_base64 s \<longleftrightarrow> length s mod 4 = 0 \<and> p \<le> 2 \<and> set body \<subseteq> set base64_alphabet \<and> body \<noteq> []"
  proof -
    have "body \<noteq> [] \<Longrightarrow> s \<noteq> []" using body(1) by simp
    then show ?thesis by (auto simp: is_valid_base64_def Let_def len pad scan)
  qed
  also have "\<dots> \<longleftrightarrow> base64_grammar s"
  proof
    assume *: "length s mod 4 = 0 \<and> p \<le> 2 \<and> set body \<subseteq> set base64_alphabet \<and> body \<noteq> []"
    then have "p = 0 \<or> p = 1 \<or> p = 2" by linarith
    then have "replicate p (61::nat) \<in> {[], [61], [61, 61]}" by (auto simp: numeral_2_eq_2)
    with * body(1) show "base64_grammar s"
      unfolding base64_grammar_def by (intro exI [of _ body] exI [of _ "replicate p 61"]) simp
  next
    assume "base64_grammar s"
    then obtain b pd where g: "s = b @ pd" "b \<noteq> []" "set b \<subseteq> set base64_alphabet"
        "pd \<in> {[], [61], [61, 61]}" "length s mod 4 = 0"
      unfolding base64_grammar_def by (elim exE conjE) (rule that)
    from g(4) have "pd = replicate (length pd) 61 \<and> length pd \<le> 2" by auto
    then obtain n where n: "pd = replicate n 61" "n \<le> 2" by blast
    have "last b \<in> set base64_alphabet" using g(2,3) by auto
    then have "last b \<noteq> 61" by (auto simp: base64_alphabet_iff)
    then have "p = n" using takeWhile_rev_replicate [of b 61 n] g(1) n(1) p by simp
    with body(1) g n show "length s mod 4 = 0 \<and> p \<le> 2 \<and> set body \<subseteq> set base64_alphabet \<and> body \<noteq> []"
      by simp
  qed
  finally show ?thesis .
qed

lemma valid_base64_ascii: "is_valid_base64 s \<Longrightarrow> \<forall>c \<in> set s. c < 128"
proof (rule base64_bytes_ascii, rule ballI)
  fix b assume v: "is_valid_base64 s" and b: "b \<in> set (as_bytes s)"
  then obtain n where "base64_scan n 0 (as_bytes s)"
    by (auto simp: is_valid_base64_def Let_def split: if_splits)
  then show "is_base64_char b \<or> b = 61"
    using b by (metis Un_iff append_take_drop_id base64_scan_iff set_append)
qed

lemma grammar_ascii: "base64_grammar s \<Longrightarrow> \<forall>c \<in> set s. c < 128"
proof -
  have "c \<in> set base64_alphabet \<Longrightarrow> c < 128" for c by (auto simp: base64_alphabet_iff)
  then show "base64_grammar s \<Longrightarrow> \<forall>c \<in> set s. c < 128" by (fastforce simp: base64_grammar_def)
qed

lemma valid_base64_grammar: "is_valid_base64 s \<longleftrightarrow> base64_grammar s"
  using base64_ascii_iff grammar_ascii valid_base64_ascii by blast

text \<open>
  C36 (equivalence). The base64 test of \<^verbatim>\<open>trusted_ca.rs\<close>, a loop over UTF-8 bytes with a
  separately counted padding, accepts exactly the strings of RFC 4648's padded grammar: a
  non-empty body over the standard alphabet, at most two padding characters, and a length
  that is a multiple of four.
\<close>

theorem is_valid_base64_iff_grammar: "is_valid_base64 s \<longleftrightarrow> base64_grammar s"
  by (rule valid_base64_grammar)

section \<open>Key lines\<close>

definition graphic :: "rchar \<Rightarrow> bool" where
  "graphic c \<longleftrightarrow> 33 \<le> c \<and> c < 127"

lemma graphic_not_ws [simp]: "graphic c \<Longrightarrow> \<not> is_whitespace c"
  by (auto simp: graphic_def is_whitespace_def)

lemma graphic_not_control [simp]: "graphic c \<Longrightarrow> \<not> is_control c"
  by (auto simp: graphic_def is_control_def)

lemma allowed_algorithm_graphic:
  "a \<in> set ALLOWED_ALGORITHMS \<Longrightarrow> a \<noteq> [] \<and> list_all graphic a \<and> hd a \<noteq> 35"
  by (auto simp: ALLOWED_ALGORITHMS_def lit_def graphic_def)

lemma valid_base64_graphic:
  assumes "is_valid_base64 s"
  shows "s \<noteq> []" and "list_all graphic s"
proof -
  from assms obtain body pad where g: "s = body @ pad" "body \<noteq> []" "set body \<subseteq> set base64_alphabet"
      "pad \<in> {[], [61], [61, 61]}"
    unfolding valid_base64_grammar base64_grammar_def by (elim exE conjE) (rule that)
  then show "s \<noteq> []" by simp
  have "graphic c" if "c \<in> set base64_alphabet" for c
    using that by (auto simp: base64_alphabet_iff graphic_def)
  then have "list_all graphic body" using g(3) by (auto simp: list_all_iff)
  moreover have "list_all graphic pad" using g(4) by (auto simp: graphic_def)
  ultimately show "list_all graphic s" using g(1) by simp
qed

text \<open>The well-formed keys: what the parser builds and the renderer can be trusted with.\<close>

definition wf_key :: "ca_public_key \<Rightarrow> bool" where
  "wf_key k \<longleftrightarrow> algorithm k \<in> set ALLOWED_ALGORITHMS \<and> is_valid_base64 (key_data k) \<and>
     (case comment k of None \<Rightarrow> True
      | Some c \<Rightarrow> c \<noteq> [] \<and> trim c = c \<and> \<not> list_ex is_control c)"

definition comment_fields :: "ca_public_key \<Rightarrow> rstr list" where
  "comment_fields k = (case comment k of None \<Rightarrow> [] | Some c \<Rightarrow> split_whitespace c)"

lemma split_whitespace_Cons:
  assumes "split_whitespace s = a # fs"
  obtains w r where "s = w @ a @ r" "\<forall>c \<in> set w. is_whitespace c" "a \<noteq> []"
    "\<forall>c \<in> set a. \<not> is_whitespace c" "trim_start s = a @ r" "r = [] \<or> is_whitespace (hd r)" "split_whitespace r = fs"
proof -
  let ?P = "\<lambda>x. \<not> is_whitespace x"
  obtain w where w: "s = w @ trim_start s" "\<forall>c \<in> set w. is_whitespace c"
    using trim_start_split by blast
  obtain c cs where ts: "trim_start s = c # cs"
    using assms by (subst (asm) split_whitespace.simps) (auto split: list.splits)
  have a: "a = takeWhile ?P (c # cs)" and fs: "split_whitespace (dropWhile ?P (c # cs)) = fs"
    using assms ts by (subst (asm) split_whitespace.simps, simp)+
  have r: "trim_start s = a @ dropWhile ?P (c # cs)" unfolding ts a by simp
  have "\<forall>x \<in> set a. ?P x" unfolding a using set_takeWhileD by metis
  moreover have "a \<noteq> []" using split_whitespace_fields [of a s] assms by simp
  moreover have "dropWhile ?P (c # cs) = [] \<or> is_whitespace (hd (dropWhile ?P (c # cs)))"
    using hd_dropWhile_not [of ?P "c # cs"] by blast
  ultimately show thesis using that [of w "dropWhile ?P (c # cs)"] w r fs by metis
qed

lemma collect_comment_spec:
  assumes "split_whitespace t = a # b # rest"
  obtains "rest = []" "collect_comment t a b = None"
  | c where "collect_comment t a b = Some c" "c \<noteq> []" "trim c = c" "set c \<subseteq> set t"
      "split_whitespace c = rest"
proof -
  from assms obtain w r where t: "t = w @ a @ r" "trim_start t = a @ r" "split_whitespace r = b # rest"
    by (rule split_whitespace_Cons)
  from t(3) obtain w' r' where r: "r = w' @ b @ r'" "trim_start r = b @ r'" "split_whitespace r' = rest"
    by (rule split_whitespace_Cons)
  have cc: "collect_comment t a b = (if trim r' = [] then None else Some (trim r'))"
    by (simp add: collect_comment_def t(2) r(2) Let_def del: trim_eq_Nil)
  show thesis
  proof (cases "trim r' = []")
    case True
    then have "rest = []" using r(3) split_whitespace_Nil_iff [of r'] by simp
    with cc True show thesis using that(1) by simp
  next
    case False
    have "set (trim r') \<subseteq> set t" using set_trim [of r'] t(1) r(1) by auto
    with cc False r(3) show thesis using that(2) [of "trim r'"] by (simp del: trim_eq_Nil)
  qed
qed

lemma parse_key_InrD:
  assumes "CaPublicKey_parse line = Inr k"
  shows "wf_key k" and "split_whitespace line = algorithm k # key_data k # comment_fields k"
    and "\<not> list_ex is_control line"
proof -
  from assms obtain a b rest where
    nc: "\<not> list_ex is_control line" and sw: "split_whitespace (trim line) = a # b # rest"
    and ok: "a \<in> set ALLOWED_ALGORITHMS" "is_valid_base64 b"
    and k: "k = \<lparr>algorithm = a, key_data = b, comment = collect_comment (trim line) a b\<rparr>"
    by (auto simp: CaPublicKey_parse_def Let_def split: if_splits list.splits)
  have sub: "set c \<subseteq> set (trim line) \<Longrightarrow> \<not> list_ex is_control c" for c
    using nc set_trim [of line] by (auto simp: list_ex_iff)
  from sw have "wf_key k \<and> split_whitespace (trim line) = algorithm k # key_data k # comment_fields k"
  proof (rule collect_comment_spec)
    assume "rest = []" "collect_comment (trim line) a b = None"
    with ok sw k show ?thesis by (simp add: wf_key_def comment_fields_def)
  next
    fix c assume "collect_comment (trim line) a b = Some c" "c \<noteq> []" "trim c = c"
      "set c \<subseteq> set (trim line)" "split_whitespace c = rest"
    with ok sw k sub show ?thesis by (simp add: wf_key_def comment_fields_def)
  qed
  then show "wf_key k" "split_whitespace line = algorithm k # key_data k # comment_fields k" by auto
  show "\<not> list_ex is_control line" by (rule nc)
qed

text \<open>
  A line of the file as a grammar: white space, the algorithm, white space, the blob, and what
  follows it after at least one more white space; the comment is that rest, trimmed, when
  anything is left.
\<close>

definition key_line :: "rstr \<Rightarrow> ca_public_key \<Rightarrow> bool" where
  "key_line line k \<longleftrightarrow> (\<exists>u v r. line = u @ algorithm k @ v @ key_data k @ r
     \<and> list_all is_whitespace u \<and> list_all is_whitespace v \<and> v \<noteq> [] \<and> (r = [] \<or> is_whitespace (hd r))
     \<and> comment k = (if trim r = [] then None else Some (trim r)))"

lemma trim_key_line:
  assumes ws: "list_all is_whitespace u" "list_all is_whitespace v"
    and f: "a \<noteq> []" "b \<noteq> []" "\<forall>c \<in> set a \<union> set b. \<not> is_whitespace c"
  shows "trim (u @ a @ v @ b @ r) = a @ v @ b @ trim_end r"
proof -
  have "trim_start (u @ a @ v @ b @ r) = a @ v @ b @ r"
    using ws(1) f by (auto simp: trim_start_def list_all_iff dropWhile_append2 intro!: dropWhile_id_hd)
  moreover have "trim_end ((a @ v @ b) @ r) = (a @ v @ b) @ trim_end r"
    using f by (intro trim_end_append) auto
  ultimately show ?thesis by (simp add: trim_def)
qed

lemma parse_key_line:
  assumes ws: "list_all is_whitespace u" "list_all is_whitespace v" "v \<noteq> []" and r: "r = [] \<or> is_whitespace (hd r)"
    and f: "a \<noteq> []" "b \<noteq> []" "\<forall>c \<in> set a \<union> set b. \<not> is_whitespace c"
  shows "CaPublicKey_parse (u @ a @ v @ b @ r) =
     (if list_ex is_control (u @ a @ v @ b @ r) then Inl IllegalCharacter
      else if a \<notin> set ALLOWED_ALGORITHMS then Inl DisallowedAlgorithm
      else if \<not> is_valid_base64 b then Inl InvalidEncoding
      else Inr \<lparr>algorithm = a, key_data = b, comment = (if trim r = [] then None else Some (trim r))\<rparr>)"
proof -
  have vb: "trim_start (v @ b @ t) = b @ t" for t
    using ws(2) f by (auto simp: trim_start_def list_all_iff dropWhile_append2 intro!: dropWhile_id_hd)
  have "split_whitespace (b @ r) = b # split_whitespace r"
    using f r by (intro split_whitespace_field) auto
  then have "split_whitespace (v @ b @ r) = b # split_whitespace r"
    by (metis split_whitespace_trim_start vb)
  moreover have "split_whitespace (a @ v @ b @ r) = a # split_whitespace (v @ b @ r)"
    using f ws by (intro split_whitespace_field) (auto simp: list_all_iff)
  moreover have "trim_start (u @ a @ v @ b @ r) = a @ v @ b @ r"
    using ws(1) f by (auto simp: trim_start_def list_all_iff dropWhile_append2 intro!: dropWhile_id_hd)
  ultimately have sw: "split_whitespace (u @ a @ v @ b @ r) = a # b # split_whitespace r"
    by (metis split_whitespace_trim_start)
  note tr = trim_key_line [OF ws(1,2) f]
  have sw': "split_whitespace (a @ v @ b @ trim_end r) = a # b # split_whitespace r"
    unfolding tr [symmetric] by (simp add: sw)
  have "collect_comment (a @ v @ b @ trim_end r) a b = (if trim r = [] then None else Some (trim r))"
    using f by (simp add: collect_comment_def trim_start_id vb Let_def del: trim_eq_Nil)
  with f show ?thesis
    unfolding CaPublicKey_parse_def Let_def tr sw' by simp
qed

text \<open>
  C35 (equivalence). A line parses to a key exactly when it is a line of the grammar for that key
  without control characters, and the key has an allow-listed algorithm and a base64 blob of
  RFC 4648: nothing else is accepted, and of what is accepted no part is lost or invented.
\<close>

theorem CaPublicKey_parse_iff:
  "CaPublicKey_parse line = Inr k \<longleftrightarrow>
     key_line line k \<and> \<not> list_ex is_control line \<and> algorithm k \<in> set ALLOWED_ALGORITHMS
     \<and> base64_grammar (key_data k)"
    (is "?L \<longleftrightarrow> ?R")
proof
  assume l: ?L
  from parse_key_InrD [OF l] have ok: "wf_key k" "\<not> list_ex is_control line"
    and sw: "split_whitespace line = algorithm k # key_data k # comment_fields k" by simp_all
  from sw obtain u r1 where 1: "line = u @ algorithm k @ r1" "\<forall>c \<in> set u. is_whitespace c"
      "algorithm k \<noteq> []" "\<forall>c \<in> set (algorithm k). \<not> is_whitespace c"
      "r1 = [] \<or> is_whitespace (hd r1)" "split_whitespace r1 = key_data k # comment_fields k"
    by (rule split_whitespace_Cons)
  from 1(6) obtain v r where 2: "r1 = v @ key_data k @ r" "\<forall>c \<in> set v. is_whitespace c"
      "key_data k \<noteq> []" "\<forall>c \<in> set (key_data k). \<not> is_whitespace c" "r = [] \<or> is_whitespace (hd r)"
    by (rule split_whitespace_Cons)
  have v: "v \<noteq> []" using 1(5) 2(1,3,4) by (cases v) (auto simp: hd_append)
  have "CaPublicKey_parse (u @ algorithm k @ v @ key_data k @ r) = Inr k" using l 1(1) 2(1) by simp
  then have "comment k = (if trim r = [] then None else Some (trim r))"
    using 1 2 v by (subst (asm) parse_key_line) (auto simp: list_all_iff split: if_splits dest!: arg_cong [where f = comment] simp del: trim_eq_Nil)
  with 1 2 v have "key_line line k" unfolding key_line_def list_all_iff by blast
  with ok show ?R by (simp add: wf_key_def valid_base64_grammar)
next
  assume r: ?R
  then have g: "algorithm k \<noteq> []" "key_data k \<noteq> []"
      "\<forall>c \<in> set (algorithm k) \<union> set (key_data k). \<not> is_whitespace c"
    using allowed_algorithm_graphic [of "algorithm k"] valid_base64_graphic [of "key_data k"]
    by (auto simp: valid_base64_grammar list_all_iff)
  from r obtain u v w where "line = u @ algorithm k @ v @ key_data k @ w" "list_all is_whitespace u"
      "list_all is_whitespace v" "v \<noteq> []" "w = [] \<or> is_whitespace (hd w)"
      "comment k = (if trim w = [] then None else Some (trim w))"
    unfolding key_line_def by blast
  with r g show ?L by (simp add: parse_key_line valid_base64_grammar del: trim_eq_Nil)
qed

section \<open>Rendering and parsing are inverse\<close>

lemma key_fields:
  assumes "wf_key k"
  shows "algorithm k \<noteq> []" "key_data k \<noteq> []" "hd (algorithm k) \<noteq> 35"
    "\<forall>c \<in> set (algorithm k) \<union> set (key_data k). \<not> is_whitespace c \<and> \<not> is_control c"
  using assms allowed_algorithm_graphic [of "algorithm k"] valid_base64_graphic [of "key_data k"]
  by (auto simp: wf_key_def list_all_iff)

lemma render_Cons:
  "CaPublicKey_render k = algorithm k @ 32 # key_data k
     @ (case comment k of None \<Rightarrow> [] | Some c \<Rightarrow> 32 # c)"
  by (simp add: CaPublicKey_render_def split: option.splits)

lemma is_whitespace_space [simp]: "is_whitespace 32"
  by (simp add: is_whitespace_def)

lemma render_no_control: "wf_key k \<Longrightarrow> \<not> list_ex is_control (CaPublicKey_render k)"
  using key_fields [of k]
  by (auto simp: render_Cons wf_key_def list_ex_iff is_control_def split: option.splits)

lemma render_trim: "wf_key k \<Longrightarrow> trim (CaPublicKey_render k) = CaPublicKey_render k"
proof (rule trim_id, rule disjI2, rule conjI)
  assume k: "wf_key k"
  note f = key_fields [OF k]
  show "\<not> is_whitespace (hd (CaPublicKey_render k))"
    using f by (simp add: render_Cons hd_append)
  show "\<not> is_whitespace (last (CaPublicKey_render k))"
  proof (cases "comment k")
    case None
    then show ?thesis using f by (simp add: render_Cons)
  next
    case (Some c)
    then have "c \<noteq> []" "trim c = c" using k by (simp_all add: wf_key_def)
    with Some f last_trim [of c] show ?thesis by (simp add: render_Cons)
  qed
qed

lemma render_fields:
  assumes "wf_key k"
  shows "split_whitespace (CaPublicKey_render k) = algorithm k # key_data k # comment_fields k"
proof -
  note f = key_fields [OF assms]
  have "split_whitespace (key_data k @ (case comment k of None \<Rightarrow> [] | Some c \<Rightarrow> 32 # c))
      = key_data k # comment_fields k"
    using f by (subst split_whitespace_field) (auto simp: comment_fields_def split: option.splits)
  with f show ?thesis
    by (simp add: render_Cons split_whitespace_field)
qed

lemma render_comment:
  assumes "wf_key k"
  shows "collect_comment (CaPublicKey_render k) (algorithm k) (key_data k) = comment k"
proof -
  note f = key_fields [OF assms]
  have ts: "trim_start (CaPublicKey_render k) = CaPublicKey_render k"
    using f by (intro trim_start_id) (simp add: render_Cons hd_append)
  have sp: "trim_start (32 # key_data k @ r) = key_data k @ r" for r
    using f trim_start_id [of "key_data k @ r"] by (simp add: trim_start_def hd_append)
  show ?thesis
  proof (cases "comment k")
    case None
    with ts sp [of "[]"] show ?thesis by (simp add: collect_comment_def render_Cons)
  next
    case (Some c)
    then have c: "c \<noteq> []" "trim c = c" using assms by (simp_all add: wf_key_def)
    have "trim (32 # c) = trim c" by (simp add: trim_def trim_start_def)
    with Some c ts sp [of "32 # c"] show ?thesis
      by (simp add: collect_comment_def render_Cons Let_def del: trim_eq_Nil)
  qed
qed

lemma parse_render_key: "wf_key k \<Longrightarrow> CaPublicKey_parse (CaPublicKey_render k) = Inr k"
  using key_fields [of k]
  by (simp add: CaPublicKey_parse_def Let_def render_no_control render_trim render_fields render_comment
      wf_key_def del: trim_eq_Nil) (auto simp: render_Cons)

text \<open>
  A key that the parser accepted renders to a line that the parser accepts
  again, with the same algorithm, blob and comment.
\<close>

theorem CaPublicKey_roundtrip:
  assumes "CaPublicKey_parse line = Inr k"
  shows "CaPublicKey_parse (CaPublicKey_render k) = Inr k"
  using parse_key_InrD(1) [OF assms] by (rule parse_render_key)

lemma parse_lines_wf:
  "parse_lines acc ls = Inr t \<Longrightarrow> \<exists>ks. keys t = acc @ ks \<and> (\<forall>k \<in> set ks. wf_key k)"
proof (induction ls arbitrary: acc)
  case (Cons l ls)
  show ?case
  proof (cases "trim l = [] \<or> starts_with 35 (trim l)")
    case True
    with Cons show ?thesis by (auto simp: Let_def simp del: trim_eq_Nil)
  next
    case False
    with Cons.prems obtain k where k: "CaPublicKey_parse l = Inr k" "parse_lines (acc @ [k]) ls = Inr t"
      by (auto simp: Let_def split: sum.splits simp del: trim_eq_Nil)
    from Cons.IH [OF k(2)] obtain ks where "keys t = (acc @ [k]) @ ks" "\<forall>k \<in> set ks. wf_key k" by blast
    with parse_key_InrD(1) [OF k(1)] show ?thesis by (intro exI [of _ "k # ks"]) auto
  qed
qed auto

lemma parse_lines_render:
  "\<forall>k \<in> set ks. wf_key k \<Longrightarrow> parse_lines acc (map CaPublicKey_render ks) = Inr \<lparr>keys = acc @ ks\<rparr>"
proof (induction ks arbitrary: acc)
  case (Cons k ks)
  then have k: "wf_key k" by simp
  have "CaPublicKey_render k \<noteq> []" "\<not> starts_with 35 (CaPublicKey_render k)"
    using key_fields [OF k] by (cases "algorithm k"; simp add: render_Cons starts_with_def)+
  with Cons show ?case
    by (simp add: Let_def render_trim [OF k] parse_render_key [OF k] del: trim_eq_Nil)
qed simp

lemma TrustedCaKeys_render_concat:
  "TrustedCaKeys_render t = concat (map (\<lambda>l. l @ [10]) (map CaPublicKey_render (keys t)))"
proof -
  have "foldl (\<lambda>out k. out @ CaPublicKey_render k @ [10]) acc ks
      = acc @ concat (map (\<lambda>l. l @ [10]) (map CaPublicKey_render ks))" for acc ks
    by (induction ks arbitrary: acc) auto
  then show ?thesis by (simp add: TrustedCaKeys_render_def)
qed

text \<open>
  C34 (roundtrip). Rendering what was parsed from a \<^verbatim>\<open>TrustedUserCAKeys\<close> file gives a file that
  parses to the same keys, in the same order, whatever comments, blank lines, Unicode white
  space and line endings the original had.
\<close>

theorem TrustedCaKeys_roundtrip:
  assumes "TrustedCaKeys_parse contents = Inr t"
  shows "TrustedCaKeys_parse (TrustedCaKeys_render t) = Inr t"
proof -
  have wf: "\<forall>k \<in> set (keys t). wf_key k"
    using parse_lines_wf assms unfolding TrustedCaKeys_parse_def by fastforce
  then have "\<forall>l \<in> set (map CaPublicKey_render (keys t)). 10 \<notin> set l \<and> 13 \<notin> set l"
    using render_no_control by (fastforce simp: list_ex_iff is_control_def)
  then have "str_lines (TrustedCaKeys_render t) = map CaPublicKey_render (keys t)"
    using str_lines_concat [of "map CaPublicKey_render (keys t)" "[]"]
    by (simp add: TrustedCaKeys_render_concat)
  with wf show ?thesis
    by (simp add: TrustedCaKeys_parse_def parse_lines_render)
qed

text \<open>Lines that are neither blank nor comments.\<close>

definition significant :: "rstr \<Rightarrow> bool" where
  "significant l \<longleftrightarrow> trim l \<noteq> [] \<and> \<not> starts_with 35 (trim l)"

lemma parse_lines_find:
  "parse_lines acc ls =
     (case List.find (\<lambda>l. isl (CaPublicKey_parse l)) (filter significant ls) of
        Some l \<Rightarrow> Inl (InvalidTrustedCa (projl (CaPublicKey_parse l)))
      | None \<Rightarrow> Inr \<lparr>keys = acc @ map (\<lambda>l. projr (CaPublicKey_parse l)) (filter significant ls)\<rparr>)"
  by (induction ls arbitrary: acc)
    (auto simp: significant_def Let_def split: sum.splits option.splits simp del: trim_eq_Nil)

text \<open>
  C33 (equivalence). A \<^verbatim>\<open>TrustedUserCAKeys\<close> file is parsed line by line: blank lines and comments
  do not count; the first line in error decides the error of the whole; and with none in error
  the keys are those of the lines, in order, none left out and none added.
\<close>

theorem TrustedCaKeys_parse_lines:
  "TrustedCaKeys_parse contents =
     (case List.find (\<lambda>l. isl (CaPublicKey_parse l)) (filter significant (str_lines contents)) of
        Some l \<Rightarrow> Inl (InvalidTrustedCa (projl (CaPublicKey_parse l)))
      | None \<Rightarrow> Inr \<lparr>keys = map (\<lambda>l. projr (CaPublicKey_parse l)) (filter significant (str_lines contents))\<rparr>)"
  by (simp add: TrustedCaKeys_parse_def parse_lines_find cong: option.case_cong)

lemmas ca_eval = str_eval CaPublicKey_parse_def collect_comment_def ALLOWED_ALGORITHMS_def
  is_valid_base64_def is_base64_char_def TrustedCaKeys_parse_def

theorem CaPublicKey_roundtrip_witness:
  "CaPublicKey_parse (CaPublicKey_render
       \<lparr>algorithm = lit ''ssh-rsa'', key_data = lit ''AA=='', comment = Some (lit ''a  b'')\<rparr>)
     = Inr \<lparr>algorithm = lit ''ssh-rsa'', key_data = lit ''AA=='', comment = Some (lit ''a  b'')\<rparr>"
proof -
  have "CaPublicKey_parse (lit '' ssh-rsa   AA==   a  b  '')
     = Inr \<lparr>algorithm = lit ''ssh-rsa'', key_data = lit ''AA=='', comment = Some (lit ''a  b'')\<rparr>"
    by (simp add: ca_eval)
  then show ?thesis by (rule CaPublicKey_roundtrip)
qed

theorem TrustedCaKeys_roundtrip_witness:
  "TrustedCaKeys_parse (TrustedCaKeys_render
       \<lparr>keys = [\<lparr>algorithm = lit ''ssh-rsa'', key_data = lit ''AAAA'', comment = Some (lit ''x'')\<rparr>]\<rparr>)
     = Inr \<lparr>keys = [\<lparr>algorithm = lit ''ssh-rsa'', key_data = lit ''AAAA'', comment = Some (lit ''x'')\<rparr>]\<rparr>"
proof -
  have "TrustedCaKeys_parse (lit ''# ca'' @ [10, 10] @ lit ''ssh-rsa AAAA x'' @ [13, 10])
     = Inr \<lparr>keys = [\<lparr>algorithm = lit ''ssh-rsa'', key_data = lit ''AAAA'', comment = Some (lit ''x'')\<rparr>]\<rparr>"
    by (simp add: ca_eval)
  then show ?thesis by (rule TrustedCaKeys_roundtrip)
qed

end
