(* ===== verification/Sshd_Config.thy ===== *)
theory Sshd_Config
  imports Errors
begin

text \<open>
  \<^verbatim>\<open>src/ssh/sshd_config.rs\<close>: rendering of the managed drop-in and inspection of sshd
  configuration text. The lemmas characterise the two scanners over the lines of the text and
  show that the drop-in is read back as the path it was rendered for.
\<close>

section \<open>Definitions\<close>

definition DIRECTIVE_KEYWORD :: rstr where
  "DIRECTIVE_KEYWORD = lit ''TrustedUserCAKeys''"

definition DROPIN_DIR :: rstr where
  "DROPIN_DIR = lit ''/etc/ssh/sshd_config.d''"

definition DROPIN_FILENAME :: rstr where
  "DROPIN_FILENAME = lit ''90-mayfly.conf''"

definition render_directive :: "rstr \<Rightarrow> rstr" where
  "render_directive trusted_ca_path = DIRECTIVE_KEYWORD @ [32] @ trusted_ca_path"

definition render_dropin :: "rstr \<Rightarrow> rstr" where
  "render_dropin trusted_ca_path =
     lit ''# Managed by mayfly-agent. Do not edit; changes are overwritten.'' @ [10]
     @ lit ''# Configures the Mayfly-managed OpenSSH user-certificate trust anchor.'' @ [10]
     @ render_directive trusted_ca_path @ [10]"

text \<open>The directory part of one \<^verbatim>\<open>Include\<close> pattern.\<close>

definition pattern_dir :: "rstr \<Rightarrow> rstr" where
  "pattern_dir pattern = (case rsplit_once 47 pattern of Some (dir, _) \<Rightarrow> dir | None \<Rightarrow> pattern)"

fun includes_lines :: "rstr \<Rightarrow> rstr list \<Rightarrow> bool" where
  "includes_lines needle [] = False"
| "includes_lines needle (line # ls) =
     (let trimmed = trim line in
      if trimmed = [] \<or> starts_with 35 trimmed then includes_lines needle ls
      else case split_once is_whitespace trimmed of
             None \<Rightarrow> includes_lines needle ls
           | Some (keyword, rest) \<Rightarrow>
               if \<not> eq_ignore_ascii_case keyword (lit ''Include'') then includes_lines needle ls
               else if list_ex (\<lambda>pattern. trim_end_matches 47 (pattern_dir pattern) = needle)
                         (split_whitespace rest)
                    then True
                    else includes_lines needle ls)"

definition includes_dropin_dir :: "rstr \<Rightarrow> rstr \<Rightarrow> bool" where
  "includes_dropin_dir config_text dropin_dir =
     includes_lines (trim_end_matches 47 dropin_dir) (str_lines config_text)"

fun find_lines :: "rstr list \<Rightarrow> rstr option" where
  "find_lines [] = None"
| "find_lines (line # ls) =
     (let trimmed = trim line in
      if trimmed = [] \<or> starts_with 35 trimmed then find_lines ls
      else case split_once (\<lambda>c. is_whitespace c \<or> c = 61) trimmed of
             None \<Rightarrow> find_lines ls
           | Some (keyword, rest) \<Rightarrow>
               if eq_ignore_ascii_case keyword DIRECTIVE_KEYWORD
               then (let v = trim (trim_start_matches 61 (trim rest)) in
                     if v = [] then None else Some v)
               else find_lines ls)"

definition find_trusted_user_ca_keys :: "rstr \<Rightarrow> rstr option" where
  "find_trusted_user_ca_keys config_text = find_lines (str_lines config_text)"

section \<open>What the scanners look for\<close>

text \<open>The value a line gives to the directive, and the patterns a line includes.\<close>

definition directive_value :: "rstr \<Rightarrow> rstr option" where
  "directive_value line =
     (let t = trim line in
      if t = [] \<or> starts_with 35 t then None
      else case split_once (\<lambda>c. is_whitespace c \<or> c = 61) t of None \<Rightarrow> None
           | Some (kw, rest) \<Rightarrow>
               if eq_ignore_ascii_case kw DIRECTIVE_KEYWORD
               then Some (trim (trim_start_matches 61 (trim rest))) else None)"

definition include_patterns :: "rstr \<Rightarrow> rstr list" where
  "include_patterns line =
     (let t = trim line in
      if t = [] \<or> starts_with 35 t then []
      else case split_once is_whitespace t of None \<Rightarrow> []
           | Some (kw, rest) \<Rightarrow>
               if eq_ignore_ascii_case kw (lit ''Include'') then split_whitespace rest else [])"

lemma find_lines_Cons:
  "find_lines (l # ls) =
     (case directive_value l of None \<Rightarrow> find_lines ls | Some v \<Rightarrow> if v = [] then None else Some v)"
  by (auto simp: directive_value_def Let_def split: option.splits simp del: trim_eq_Nil)

declare find_lines.simps(2) [simp del]

lemma find_lines_append:
  "find_lines (ls @ ms) = (if \<forall>l \<in> set ls. directive_value l = None then find_lines ms else find_lines ls)"
  by (induction ls) (auto simp: find_lines_Cons split: option.splits)

lemma find_lines_SomeD:
  "find_lines ls = Some v \<Longrightarrow> \<exists>l \<in> set ls. directive_value l = Some v"
  by (induction ls) (auto simp: find_lines_Cons split: option.splits if_splits)

lemma includes_lines_iff:
  "includes_lines needle ls \<longleftrightarrow>
     (\<exists>l \<in> set ls. \<exists>p \<in> set (include_patterns l). trim_end_matches 47 (pattern_dir p) = needle)"
proof (induction ls)
  case (Cons l ls)
  have "includes_lines needle (l # ls) \<longleftrightarrow>
      (\<exists>p \<in> set (include_patterns l). trim_end_matches 47 (pattern_dir p) = needle) \<or> includes_lines needle ls"
    by (auto simp: include_patterns_def Let_def list_ex_iff split: option.splits simp del: trim_eq_Nil)
  with Cons.IH show ?case by auto
qed simp

lemma str_lines_append:
  assumes "a = [] \<or> last a = 10"
  shows "str_lines (a @ b) = str_lines a @ str_lines b"
  using assms
proof (induction a rule: str_lines.induct)
  case (1 a)
  show ?case
  proof (cases "a = []")
    case False
    then have "10 \<in> set a" using "1.prems" last_in_set by metis
    then obtain l r where a: "a = l @ 10 # r" and l: "10 \<notin> set l" by (auto dest: split_list_first)
    have dw: "dropWhile (\<lambda>c. c \<noteq> 10) a = 10 # r"
      unfolding a using l by (intro dropWhile_all_append) auto
    have "r = [] \<or> last r = 10" using "1.prems" a by (auto split: if_splits)
    with "1.IH" [OF False dw] show ?thesis by (simp add: a str_lines_step [OF l])
  qed simp
qed

text \<open>
  C39 (functional). The search for the effective \<^verbatim>\<open>TrustedUserCAKeys\<close> value takes the first
  line that sets the keyword: text that ends in a line feed and sets it hides every later
  setting, and text that does not set it is skipped.
\<close>

theorem find_first_wins:
  "find_trusted_user_ca_keys (a @ 10 # b) =
     (if list_all (\<lambda>l. directive_value l = None) (str_lines (a @ [10]))
      then find_trusted_user_ca_keys b else find_trusted_user_ca_keys (a @ [10]))"
proof -
  have "str_lines (a @ 10 # b) = str_lines (a @ [10]) @ str_lines b"
    using str_lines_append [of "a @ [10]" b] by simp
  then show ?thesis by (simp only: find_trusted_user_ca_keys_def find_lines_append list_all_iff)
qed

section \<open>Include lines as a grammar\<close>

text \<open>
  A line includes the pattern \<open>p\<close> when it is white space, the keyword in any case, a white-space
  character, and text in which \<open>p\<close> is a field. A pattern lies in a directory when cutting its last
  component, or nothing when it has only one, leaves the directory, up to slashes at the end.
\<close>

definition includes_pattern :: "rstr \<Rightarrow> rstr \<Rightarrow> bool" where
  "includes_pattern line p \<longleftrightarrow> (\<exists>a kw s rest. line = a @ kw @ s # rest
     \<and> (\<forall>x \<in> set a. is_whitespace x) \<and> (\<forall>x \<in> set kw. \<not> is_whitespace x) \<and> is_whitespace s
     \<and> map to_ascii_lowercase kw = lit ''include'' \<and> field_of p rest)"

definition lies_in :: "rstr \<Rightarrow> rstr \<Rightarrow> bool" where
  "lies_in p dir \<longleftrightarrow> (\<exists>x m n. dir = x @ replicate n 47 \<and>
     ((\<exists>name. p = x @ replicate m 47 @ 47 # name \<and> 47 \<notin> set name) \<or> 47 \<notin> set p \<and> p = x @ replicate m 47))"

lemma pattern_dir_iff: "pattern_dir p = d \<longleftrightarrow> (\<exists>name. p = d @ 47 # name \<and> 47 \<notin> set name) \<or> 47 \<notin> set p \<and> p = d"
proof (cases "47 \<in> set p")
  case True
  have cut: "pattern_dir (x @ 47 # name) = x" if "47 \<notin> set name" for x name
  proof -
    have "dropWhile (\<lambda>d. d \<noteq> 47) (rev name @ 47 # rev x) = 47 # rev x"
      using that by (intro dropWhile_all_append) auto
    then show ?thesis by (simp add: pattern_dir_def rsplit_once_def)
  qed
  from True obtain x name where "p = x @ 47 # name" "47 \<notin> set name" by (meson split_list_last)
  with cut True show ?thesis by metis
next
  case False
  then have "dropWhile (\<lambda>d. d \<noteq> 47) (rev p) = []" by auto
  then have "pattern_dir p = p" by (simp only: pattern_dir_def rsplit_once_def list.case option.case)
  with False show ?thesis by auto
qed

lemma lies_in_iff: "trim_end_matches 47 (pattern_dir p) = trim_end_matches 47 dir \<longleftrightarrow> lies_in p dir"
proof -
  have "trim_end_matches 47 (pattern_dir p) = trim_end_matches 47 dir \<longleftrightarrow>
      (\<exists>x m n. pattern_dir p = x @ replicate m 47 \<and> dir = x @ replicate n 47)" by (rule trim_end_matches_eq_iff)
  then show ?thesis unfolding lies_in_def pattern_dir_iff by (simp only: append_assoc) blast
qed

lemma include_keyword: "map to_ascii_lowercase kw = lit ''include'' \<Longrightarrow> kw \<noteq> [] \<and> hd kw \<noteq> 35"
  by (cases kw) (auto simp: lit_def to_ascii_lowercase_def)

lemma eq_ignore_Include: "eq_ignore_ascii_case kw (lit ''Include'') \<longleftrightarrow> map to_ascii_lowercase kw = lit ''include''"
  by (simp add: eq_ignore_ascii_case_def lit_def to_ascii_lowercase_def)

lemma split_once_iff:
  "split_once P s = Some (k, r) \<longleftrightarrow> (\<exists>x. s = k @ x # r \<and> P x \<and> (\<forall>y \<in> set k. \<not> P y))"
proof
  assume "split_once P s = Some (k, r)"
  then obtain x where x: "dropWhile (\<lambda>c. \<not> P c) s = x # r" "k = takeWhile (\<lambda>c. \<not> P c) s"
    by (auto simp: split_once_def split: list.splits)
  from x(1) hd_dropWhile [of "\<lambda>c. \<not> P c" s] have "P x" by simp
  with x show "\<exists>x. s = k @ x # r \<and> P x \<and> (\<forall>y \<in> set k. \<not> P y)"
    by (metis set_takeWhileD takeWhile_dropWhile_id)
qed (auto simp: split_once_def takeWhile_append2 dropWhile_append2)

lemma include_patterns_iff: "p \<in> set (include_patterns line) \<longleftrightarrow> includes_pattern line p"
proof
  assume "p \<in> set (include_patterns line)"
  then obtain kw rest where "split_once is_whitespace (trim line) = Some (kw, rest)"
    and kw: "map to_ascii_lowercase kw = lit ''include''" and p: "field_of p rest"
    by (cases "split_once is_whitespace (trim line)")
      (auto simp: include_patterns_def Let_def eq_ignore_Include split_whitespace_iff split: if_splits)
  then obtain x where t: "trim line = kw @ x # rest" "is_whitespace x" "\<forall>y \<in> set kw. \<not> is_whitespace y"
    by (auto simp: split_once_iff)
  obtain a where a: "line = a @ trim_start line" "\<forall>y \<in> set a. is_whitespace y" using trim_start_split by blast
  obtain z where z: "trim_start line = trim line @ z" "\<forall>y \<in> set z. is_whitespace y"
    using trim_end_split [of "trim_start line"] by (auto simp: trim_def)
  from p obtain b c where "p \<noteq> []" "\<forall>x \<in> set p. \<not> is_whitespace x" "rest = b @ p @ c"
    "b = [] \<or> is_whitespace (last b)" "c = [] \<or> is_whitespace (hd c)" by (auto simp: field_of_def)
  moreover from this(5) z(2) have "c @ z = [] \<or> is_whitespace (hd (c @ z))" by (cases c; cases z) auto
  ultimately have "field_of p (rest @ z)" unfolding field_of_def by (metis append_assoc)
  moreover have "line = a @ kw @ x # (rest @ z)" using a(1) unfolding z(1) t(1) by simp
  ultimately show "includes_pattern line p" unfolding includes_pattern_def using a(2) t(2,3) kw by blast
next
  assume "includes_pattern line p"
  then obtain a kw s b c where l: "line = a @ kw @ s # b @ p @ c" and a: "\<forall>x \<in> set a. is_whitespace x"
    and kw: "\<forall>x \<in> set kw. \<not> is_whitespace x" "map to_ascii_lowercase kw = lit ''include''" and s: "is_whitespace s"
    and p: "p \<noteq> []" "\<forall>x \<in> set p. \<not> is_whitespace x"
    and bc: "b = [] \<or> is_whitespace (last b)" "c = [] \<or> is_whitespace (hd c)"
    unfolding includes_pattern_def field_of_def by blast
  note ne = include_keyword [OF kw(2)]
  have "trim_start line = kw @ s # b @ p @ c"
    unfolding l trim_start_def using a kw(1) ne by (simp add: dropWhile_append2 dropWhile_id_hd)
  moreover have "trim_end ((kw @ s # b @ p) @ c) = (kw @ s # b @ p) @ trim_end c"
    using p by (intro trim_end_append) auto
  ultimately have t: "trim line = kw @ s # b @ p @ trim_end c" by (simp add: trim_def)
  have so: "split_once is_whitespace (trim line) = Some (kw, b @ p @ trim_end c)"
    unfolding split_once_iff t using kw(1) s by blast
  obtain z where "c = trim_end c @ z" using trim_end_split by blast
  with bc(2) have "trim_end c = [] \<or> is_whitespace (hd (trim_end c))" by (metis append_is_Nil_conv hd_append2)
  with p bc(1) have "field_of p (b @ p @ trim_end c)" unfolding field_of_def by blast
  moreover from ne have "trim line \<noteq> []" "\<not> starts_with 35 (trim line)"
    unfolding t by (cases kw; simp add: starts_with_def)+
  ultimately show "p \<in> set (include_patterns line)"
    by (simp add: include_patterns_def Let_def so eq_ignore_Include kw(2) split_whitespace_iff)
qed

text \<open>
  C38 (equivalence). The scan for the drop-in directory accepts exactly the configurations of a
  grammar: some line is white space, the keyword \<^verbatim>\<open>Include\<close> in any case, and fields one of which is a
  pattern that lies in the directory, which is cut at the last slash; a commented line is none.
\<close>

theorem includes_dropin_dir_iff:
  "includes_dropin_dir text dir \<longleftrightarrow>
     (\<exists>line p. line \<in> set (str_lines text) \<and> includes_pattern line p \<and> lies_in p dir)"
  unfolding includes_dropin_dir_def includes_lines_iff include_patterns_iff [symmetric] lies_in_iff [symmetric] by blast

section \<open>The managed drop-in\<close>

text \<open>A path that survives a round trip through a configuration line.\<close>

definition clean_path :: "rstr \<Rightarrow> bool" where
  "clean_path p \<longleftrightarrow> p \<noteq> [] \<and> 10 \<notin> set p \<and> hd p \<noteq> 61
     \<and> \<not> is_whitespace (hd p) \<and> \<not> is_whitespace (last p)"





lemma directive_value_directive:
  assumes "clean_path p"
  shows "directive_value (render_directive p) = Some p"
proof -
  obtain ks where ks: "DIRECTIVE_KEYWORD = 84 # ks" by (simp add: DIRECTIVE_KEYWORD_def lit_def)
  have kw: "\<forall>c \<in> set DIRECTIVE_KEYWORD. \<not> is_whitespace c \<and> c \<noteq> 61"
    by (simp add: DIRECTIVE_KEYWORD_def lit_def is_whitespace_def)
  note cp = assms [unfolded clean_path_def]
  have tr: "trim (render_directive p) = render_directive p"
    using cp by (intro trim_id) (simp add: render_directive_def ks is_whitespace_def [of 84])
  have ne: "render_directive p \<noteq> []" "\<not> starts_with 35 (render_directive p)"
    by (simp_all add: render_directive_def starts_with_def ks)
  let ?P = "\<lambda>c. \<not> (is_whitespace c \<or> c = 61)"
  have sp: "takeWhile ?P (render_directive p) = DIRECTIVE_KEYWORD" "dropWhile ?P (render_directive p) = 32 # p"
    unfolding render_directive_def append_Cons append_Nil
    by (rule takeWhile_all_append dropWhile_all_append; use kw in \<open>simp add: is_whitespace_def\<close>)+
  have so: "split_once (\<lambda>c. is_whitespace c \<or> c = 61) (render_directive p) = Some (DIRECTIVE_KEYWORD, p)"
    using sp by (simp add: split_once_def)
  have "trim p = p" using cp by (intro trim_id) simp
  moreover have "trim_start_matches 61 p = p"
    using cp by (simp add: trim_start_matches_def dropWhile_id_hd)
  ultimately show ?thesis
    using ne by (simp add: directive_value_def Let_def tr so eq_ignore_ascii_case_def del: trim_eq_Nil)
qed




text \<open>
  Configuration that sshd reads before the drop-in and that already sets the
  keyword keeps its value: a drop-in that is ordered late does not take precedence.
\<close>

theorem dropin_shadowed_by_earlier:
  assumes "find_trusted_user_ca_keys (a @ [10]) = Some v"
  shows "find_trusted_user_ca_keys (a @ 10 # render_dropin p) = Some v"
proof -
  have "str_lines (a @ 10 # render_dropin p) = str_lines (a @ [10]) @ str_lines (render_dropin p)"
    using str_lines_append [of "a @ [10]" "render_dropin p"] by simp
  moreover have "\<not> (\<forall>l \<in> set (str_lines (a @ [10])). directive_value l = None)"
    using assms find_lines_SomeD by (fastforce simp: find_trusted_user_ca_keys_def)
  ultimately show ?thesis
    using assms by (auto simp: find_trusted_user_ca_keys_def find_lines_append)
qed

theorem dropin_shadowed_by_earlier_witness:
  "find_trusted_user_ca_keys (render_directive (lit ''/first'') @ 10 # render_dropin (lit ''/second''))
     = Some (lit ''/first'')"
proof -
  have p: "clean_path (lit ''/first'')" by (simp add: clean_path_def lit_def is_whitespace_def)
  have "str_lines (render_directive (lit ''/first'') @ [10]) = [render_directive (lit ''/first'')]"
    by (subst str_lines_step)
      (simp_all add: render_directive_def DIRECTIVE_KEYWORD_def lit_def strip_cr_def)
  then have "find_trusted_user_ca_keys (render_directive (lit ''/first'') @ [10]) = Some (lit ''/first'')"
    using directive_value_directive [OF p] p
    by (simp add: find_trusted_user_ca_keys_def find_lines_Cons clean_path_def)
  then show ?thesis by (rule dropin_shadowed_by_earlier)
qed

end
