(* ===== verification/Protocol.thy ===== *)
theory Protocol
  imports Errors
begin

text \<open>
  \<^verbatim>\<open>src/protocol.rs\<close>: the messages of the control socket, their length-prefixed framing and
  the token comparison. \<^verbatim>\<open>serde_json\<close> is a third-party crate: its encoders and decoders are
  the fields of a parameter \<open>codec\<close>. The byte streams are those of \<^verbatim>\<open>std::io\<close>: a reader
  delivers its bytes in arbitrary pieces and may be interrupted, fail or end at any point, a
  writer may accept only part of what it is given.
\<close>

section \<open>Messages\<close>

definition PROTOCOL_VERSION :: u32 where
  "PROTOCOL_VERSION = 1"

definition MAX_BODY_BYTES :: nat where
  "MAX_BODY_BYTES = 1024 * 1024"

datatype operation = Ping | EnsureDirectories | InstallSshdDropin | ApplyTrustedCaKeys | VerifyState

record request =
  protocol_version :: u32
  token :: rstr
  op :: operation
  content :: "rstr option"

definition Request_new :: "rstr \<Rightarrow> operation \<Rightarrow> request" where
  "Request_new t o' = \<lparr>protocol_version = PROTOCOL_VERSION, token = t, op = o', content = None\<rparr>"

definition Request_apply :: "rstr \<Rightarrow> rstr \<Rightarrow> request" where
  "Request_apply t c =
     \<lparr>protocol_version = PROTOCOL_VERSION, token = t, op = ApplyTrustedCaKeys, content = Some c\<rparr>"

text \<open>\<^verbatim>\<open>Outcome::Ok\<close> is \<open>OutcomeOk\<close>.\<close>

datatype outcome = OutcomeOk | Applied | RolledBack | NotModified | Unhealthy

record response =
  ok :: bool
  outcome :: outcome
  helper_version :: "rstr option"
  detail :: "rstr option"

definition Response_success :: "outcome \<Rightarrow> response" where
  "Response_success r = \<lparr>ok = True, outcome = r, helper_version = None, detail = None\<rparr>"

definition Response_failure :: "outcome \<Rightarrow> rstr \<Rightarrow> response" where
  "Response_failure r d = \<lparr>ok = False, outcome = r, helper_version = None, detail = Some d\<rparr>"

section \<open>Encoding\<close>

record codec =
  to_vec_request :: "request \<Rightarrow> bytes option"
  from_slice_request :: "bytes \<Rightarrow> request option"
  to_vec_response :: "response \<Rightarrow> bytes option"
  from_slice_response :: "bytes \<Rightarrow> response option"

definition or_protocol :: "'a option \<Rightarrow> error + 'a" where
  "or_protocol r = (case r of None \<Rightarrow> Inl HelperProtocol | Some a \<Rightarrow> Inr a)"

definition encode_request :: "codec \<Rightarrow> request \<Rightarrow> error + bytes" where
  "encode_request j r = or_protocol (to_vec_request j r)"

definition decode_request :: "codec \<Rightarrow> bytes \<Rightarrow> error + request" where
  "decode_request j bs = or_protocol (from_slice_request j bs)"

definition encode_response :: "codec \<Rightarrow> response \<Rightarrow> error + bytes" where
  "encode_response j r = or_protocol (to_vec_response j r)"

definition decode_response :: "codec \<Rightarrow> bytes \<Rightarrow> error + response" where
  "decode_response j bs = or_protocol (from_slice_response j bs)"

section \<open>Byte streams\<close>

text \<open>
  What the next \<^verbatim>\<open>read\<close> calls of a stream return; the empty list is end of file, and so is
  an empty piece. \<^verbatim>\<open>read_exact\<close> retries an interrupted call and stops at any other error.
\<close>

datatype read_event = Data bytes | Interrupted | ReadFail io_kind

type_synonym reader = "read_event list"

fun read_exact :: "nat \<Rightarrow> reader \<Rightarrow> (io_kind + bytes) \<times> reader" where
  "read_exact n [] = (if n = 0 then Inr [] else Inl UnexpectedEof, [])"
| "read_exact n (e # r) =
     (if n = 0 then (Inr [], e # r)
      else case e of
             Interrupted \<Rightarrow> read_exact n r
           | ReadFail k \<Rightarrow> (Inl k, r)
           | Data d \<Rightarrow>
               if d = [] then (Inl UnexpectedEof, r)
               else if n < length d then (Inr (take n d), Data (drop n d) # r)
               else (case read_exact (n - length d) r of
                       (Inl k, r') \<Rightarrow> (Inl k, r')
                     | (Inr bs, r') \<Rightarrow> (Inr (d @ bs), r')))"

text \<open>
  A writer accepts \<open>room\<close> more bytes (\<open>None\<close>: any number) before its calls fail; \<open>flushes\<close>
  tells whether \<^verbatim>\<open>flush\<close> succeeds.
\<close>

record writer =
  sunk :: bytes
  room :: "nat option"
  flushes :: bool

definition write_all :: "bytes \<Rightarrow> (writer, io_kind, unit) act" where
  "write_all bs w =
     (case room w of
        None \<Rightarrow> (Ok (), w\<lparr>sunk := sunk w @ bs\<rparr>)
      | Some n \<Rightarrow>
          if length bs \<le> n then (Ok (), w\<lparr>sunk := sunk w @ bs, room := Some (n - length bs)\<rparr>)
          else (Err WriteZero, w\<lparr>sunk := sunk w @ take n bs, room := Some 0\<rparr>))"

definition flush :: "(writer, io_kind, unit) act" where
  "flush w = (if flushes w then Ok () else Err WriteZero, w)"

section \<open>Framing\<close>

definition to_be_bytes :: "u32 \<Rightarrow> bytes" where
  "to_be_bytes n = [ucast (drop_bit 24 n), ucast (drop_bit 16 n), ucast (drop_bit 8 n), ucast n]"

fun from_be_bytes :: "bytes \<Rightarrow> u32" where
  "from_be_bytes [a, b, c, d] =
     push_bit 24 (ucast a) OR push_bit 16 (ucast b) OR push_bit 8 (ucast c) OR ucast d"
| "from_be_bytes _ = 0"

definition u32_try_from :: "nat \<Rightarrow> error + u32" where
  "u32_try_from n = (if n < 2 ^ 32 then Inr (of_nat n) else Inl HelperProtocol)"

definition write_frame :: "bytes \<Rightarrow> (writer, error, unit) act" where
  "write_frame body =
     (if MAX_BODY_BYTES < length body then throw HelperProtocol
      else bind (lift (u32_try_from (length body))) (\<lambda>len.
           seq (map_err (\<lambda>_. HelperUnavailable) (write_all (to_be_bytes len)))
           (seq (map_err (\<lambda>_. HelperUnavailable) (write_all body))
                (map_err (\<lambda>_. HelperUnavailable) flush))))"

definition read_frame :: "reader \<Rightarrow> (error + bytes) \<times> reader" where
  "read_frame r =
     (case read_exact 4 r of
        (Inl _, r1) \<Rightarrow> (Inl HelperUnavailable, r1)
      | (Inr len_buf, r1) \<Rightarrow>
          (let len = unat (from_be_bytes len_buf) in
           if MAX_BODY_BYTES < len then (Inl HelperProtocol, r1)
           else case read_exact len r1 of
                  (Inl _, r2) \<Rightarrow> (Inl HelperUnavailable, r2)
                | (Inr body, r2) \<Rightarrow> (Inr body, r2)))"

section \<open>Token comparison\<close>

definition constant_time_eq :: "bytes \<Rightarrow> bytes \<Rightarrow> bool" where
  "constant_time_eq a b =
     (if length a \<noteq> length b then False
      else foldl (\<lambda>diff (x, y). diff OR (x XOR y)) 0 (zip a b) = 0)"

section \<open>Streams as byte sequences\<close>

text \<open>The bytes a reader can still deliver before it fails or ends.\<close>

fun avail :: "reader \<Rightarrow> bytes" where
  "avail [] = []"
| "avail (Interrupted # r) = avail r"
| "avail (ReadFail k # r) = []"
| "avail (Data d # r) = (if d = [] then [] else d @ avail r)"

lemma read_exact_enough:
  "n \<le> length (avail r) \<Longrightarrow>
     \<exists>r'. read_exact n r = (Inr (take n (avail r)), r') \<and> avail r' = drop n (avail r)"
proof (induction r arbitrary: n)
  case (Cons e r)
  show ?case
  proof (cases "n = 0")
    case False
    show ?thesis
    proof (cases e)
      case (Data d)
      show ?thesis
      proof (cases "n < length d")
        case True
        with False Data show ?thesis by auto
      next
        case n: False
        with Data Cons.prems False have d: "d \<noteq> []" "n - length d \<le> length (avail r)"
          by (auto split: if_splits)
        from Cons.IH [OF d(2)] obtain r' where
          "read_exact (n - length d) r = (Inr (take (n - length d) (avail r)), r')"
          "avail r' = drop (n - length d) (avail r)" by blast
        with Data n d(1) False show ?thesis by auto
      qed
    qed (use Cons False in auto)
  qed auto
qed simp

lemma read_exact_short:
  "length (avail r) < n \<Longrightarrow> \<exists>k r'. read_exact n r = (Inl k, r')"
proof (induction r arbitrary: n)
  case (Cons e r)
  then have n: "n \<noteq> 0" by auto
  show ?case
  proof (cases e)
    case (Data d)
    show ?thesis
    proof (cases "d = []")
      case False
      with Data Cons.prems have "length d < n" "length (avail r) < n - length d" by auto
      with Cons.IH [of "n - length d"] Data False n show ?thesis by auto
    qed (use Data n in auto)
  qed (use Cons n in auto)
qed simp

lemma from_be_to_be [simp]: "from_be_bytes (to_be_bytes n) = n"
proof (rule bit_word_eqI)
  fix i assume "i < LENGTH(32)"
  then consider "i < 8" | "8 \<le> i" "i < 16" | "16 \<le> i" "i < 24" | "24 \<le> i" "i < 32"
    by simp linarith
  then show "bit (from_be_bytes (to_be_bytes n)) i \<longleftrightarrow> bit n i"
    by cases (auto simp: to_be_bytes_def bit_simps)
qed

lemma length_to_be_bytes [simp]: "length (to_be_bytes n) = 4"
  by (simp add: to_be_bytes_def)

lemma unat_frame_len: "n \<le> MAX_BODY_BYTES \<Longrightarrow> unat (of_nat n :: u32) = n"
  by (simp add: MAX_BODY_BYTES_def unat_of_nat)

text \<open>What the framing means on a plain byte sequence.\<close>

definition parse_frame :: "bytes \<Rightarrow> error + bytes" where
  "parse_frame a =
     (if length a < 4 then Inl HelperUnavailable
      else let len = unat (from_be_bytes (take 4 a)) in
        if MAX_BODY_BYTES < len then Inl HelperProtocol
        else if length a < 4 + len then Inl HelperUnavailable
        else Inr (take len (drop 4 a)))"

definition frame :: "bytes \<Rightarrow> bytes" where
  "frame body = to_be_bytes (of_nat (length body)) @ body"

lemma read_frame_parse: "fst (read_frame r) = parse_frame (avail r)"
proof (cases "length (avail r) < 4")
  case True
  from read_exact_short [OF True] obtain k r' where "read_exact 4 r = (Inl k, r')" by blast
  with True show ?thesis by (simp add: read_frame_def parse_frame_def)
next
  case False
  then have "4 \<le> length (avail r)" by simp
  from read_exact_enough [OF this] obtain r1 where
    r1: "read_exact 4 r = (Inr (take 4 (avail r)), r1)" "avail r1 = drop 4 (avail r)" by blast
  let ?len = "unat (from_be_bytes (take 4 (avail r)))"
  show ?thesis
  proof (cases "?len \<le> length (avail r1)")
    case True
    from read_exact_enough [OF True] obtain r2 where "read_exact ?len r1 = (Inr (take ?len (avail r1)), r2)"
      by blast
    with True False r1 show ?thesis by (auto simp: read_frame_def parse_frame_def Let_def)
  next
    case short: False
    then have "length (avail r1) < ?len" by simp
    from read_exact_short [OF this] obtain k r2 where "read_exact ?len r1 = (Inl k, r2)" by blast
    with short False r1 show ?thesis by (auto simp: read_frame_def parse_frame_def Let_def)
  qed
qed

text \<open>
  C30 (refinement). However the peer's bytes arrive, in which pieces and with which
  interruptions, reading a frame gives what the plain byte sequence means: nothing is returned
  before four length bytes and the whole body are there, and a declared length over the cap is
  a protocol error.
\<close>

theorem read_frame_refines: "fst (read_frame r) = parse_frame (avail r)"
  by (rule read_frame_parse)

text \<open>
  A body that a reader gets is never longer than the cap, and an oversized length
  prefix is refused with no byte of the body taken from the stream.
\<close>

theorem read_frame_bounded:
  "case fst (read_frame r) of
     Inr body \<Rightarrow> length body \<le> MAX_BODY_BYTES
   | Inl x \<Rightarrow> if x = HelperProtocol then avail (snd (read_frame r)) = drop 4 (avail r) else x = HelperUnavailable"
proof (cases "4 \<le> length (avail r)")
  case True
  from read_exact_enough [OF True] obtain r' where
    "read_exact 4 r = (Inr (take 4 (avail r)), r')" "avail r' = drop 4 (avail r)" by blast
  moreover have "length body \<le> MAX_BODY_BYTES" if "fst (read_frame r) = Inr body" for body
    using that by (auto simp: read_frame_parse parse_frame_def Let_def split: if_splits)
  ultimately show ?thesis
    by (auto simp: read_frame_def Let_def split: prod.splits sum.splits)
next
  case False
  then show ?thesis by (simp add: read_frame_parse parse_frame_def)
qed

lemma write_frame_ok:
  "length body \<le> MAX_BODY_BYTES \<Longrightarrow> room w = None \<Longrightarrow> flushes w \<Longrightarrow>
     write_frame body w = (Ok (), w\<lparr>sunk := sunk w @ frame body\<rparr>)"
  by (simp add: write_frame_def u32_try_from_def MAX_BODY_BYTES_def act_simps write_all_def flush_def
      frame_def)

lemma parse_frame_frame:
  assumes "length body \<le> MAX_BODY_BYTES"
  shows "parse_frame (frame body @ rest) = Inr body"
proof -
  have "take 4 (frame body @ rest) = to_be_bytes (of_nat (length body))"
      "drop 4 (frame body @ rest) = body @ rest" "length (frame body @ rest) = 4 + length body + length rest"
    by (simp_all add: frame_def)
  with assms show ?thesis by (simp add: parse_frame_def unat_frame_len)
qed

text \<open>
  C32 (roundtrip). A body up to the cap, written as a frame on a healthy stream and delivered
  in any pieces, is read back unchanged, and what follows it on the stream is left there.
\<close>

theorem frame_roundtrip:
  assumes "length body \<le> MAX_BODY_BYTES" and "room w = None" and "flushes w"
    and "avail r = sunk (snd (write_frame body (w\<lparr>sunk := []\<rparr>))) @ rest"
  shows "fst (write_frame body w) = Ok () \<and> fst (read_frame r) = Inr body \<and>
     avail (snd (read_frame r)) = rest"
proof -
  have a: "avail r = frame body @ rest"
    using assms by (simp add: write_frame_ok)
  then have l: "4 \<le> length (avail r)" by (simp add: frame_def)
  from read_exact_enough [OF l] obtain r1 where
    r1: "read_exact 4 r = (Inr (to_be_bytes (of_nat (length body))), r1)" "avail r1 = body @ rest"
    using a by (auto simp: frame_def)
  then have "length body \<le> length (avail r1)" by simp
  from read_exact_enough [OF this] r1 obtain r2 where
    r2: "read_exact (length body) r1 = (Inr body, r2)" "avail r2 = rest" by auto
  have "read_frame r = (Inr body, r2)"
    using assms(1) r1(1) r2(1) by (simp add: read_frame_def Let_def unat_frame_len)
  with r2(2) assms show ?thesis by (simp add: write_frame_ok)
qed

theorem frame_roundtrip_witness:
  "fst (read_frame [Data [0, 0], Interrupted, Data [0, 2, 7], Data [9, 5]]) = Inr [7, 9] \<and>
   avail (snd (read_frame [Data [0, 0], Interrupted, Data [0, 2, 7], Data [9, 5]])) = [5]"
proof -
  let ?w = "\<lparr>sunk = [], room = None, flushes = True\<rparr>"
  let ?r = "[Data [0, 0], Interrupted, Data [0, 2, 7], Data [9, 5]]"
  have "avail ?r = sunk (snd (write_frame [7, 9] (?w\<lparr>sunk := []\<rparr>))) @ [5]"
    by (simp add: write_frame_ok MAX_BODY_BYTES_def frame_def to_be_bytes_def)
  then show ?thesis
    using frame_roundtrip [of "[7, 9]" ?w ?r "[5]"] by (simp add: MAX_BODY_BYTES_def)
qed

lemma write_all_prefix:
  "wp (write_all bs) (\<lambda>r w'. \<exists>out rest. sunk w' = sunk w @ out \<and> bs = out @ rest
     \<and> (case r of Ok _ \<Rightarrow> rest = [] | Err _ \<Rightarrow> True | Abort _ \<Rightarrow> False)) w"
proof -
  have "take n bs @ drop n bs = bs" for n by simp
  then show ?thesis
    by (auto simp: wp_def write_all_def split: option.splits) (metis append_take_drop_id)
qed

lemma wp_write_frame:
  "wp (write_frame body) (\<lambda>r w'. \<exists>out rest. sunk w' = sunk w @ out \<and> frame body = out @ rest
     \<and> (case r of
          Ok _ \<Rightarrow> rest = [] \<and> length body \<le> MAX_BODY_BYTES
        | Err x \<Rightarrow> x = HelperUnavailable \<or> (x = HelperProtocol \<and> out = [] \<and> MAX_BODY_BYTES < length body)
        | Abort _ \<Rightarrow> False)) w"
proof (cases "MAX_BODY_BYTES < length body")
  case True
  then show ?thesis by (simp add: write_frame_def wp_simps)
next
  case False
  let ?len = "of_nat (length body) :: u32"
  have fl: "wp (map_err (\<lambda>_. HelperUnavailable) flush) (\<lambda>r w'. w' = w2 \<and> r \<in> {Ok (), Err HelperUnavailable}) w2" for w2
    by (simp add: wp_def act_simps flush_def)
  have wa: "wp (map_err (\<lambda>_. HelperUnavailable) (write_all bs)) (\<lambda>r w'. \<exists>out rest. sunk w' = sunk w2 @ out \<and> bs = out @ rest
     \<and> (case r of Ok _ \<Rightarrow> rest = [] | Err x \<Rightarrow> x = HelperUnavailable | Abort _ \<Rightarrow> False)) w2" for bs w2
    unfolding wp_map_err by (rule wp_weaken [OF write_all_prefix]) (auto split: ret.splits)
  from False have "u32_try_from (length body) = Inr ?len"
    by (simp add: u32_try_from_def MAX_BODY_BYTES_def)
  with False show ?thesis
    unfolding write_frame_def
    apply (simp add: wp_bind wp_return)
    apply (rule wp_seqI [OF wa])
      apply (rule wp_seqI [OF wa])
        apply (rule wp_weaken [OF fl])
        apply (auto simp: frame_def)
    done
qed

text \<open>
  What a writer gets is always a prefix of the frame: all of it when the result is
  \<open>Ok\<close>; nothing at all when the body is over the cap, which is a protocol error; and otherwise
  what went through before the stream failed.
\<close>

theorem write_frame_prefix:
  "\<exists>out rest. sunk (snd (write_frame body w)) = sunk w @ out \<and> frame body = out @ rest
     \<and> (case fst (write_frame body w) of
          Ok _ \<Rightarrow> rest = [] \<and> length body \<le> MAX_BODY_BYTES
        | Err x \<Rightarrow> x = HelperUnavailable \<or> (x = HelperProtocol \<and> out = [] \<and> MAX_BODY_BYTES < length body)
        | Abort _ \<Rightarrow> False)"
  using wp_write_frame [of body w] by (simp add: wp_fst_snd)

section \<open>Constant-time comparison\<close>

lemma diff_fold_zero:
  "foldl (\<lambda>d (x, y). d OR (x XOR y)) d xs = 0 \<longleftrightarrow> d = 0 \<and> (\<forall>(x, y) \<in> set xs. x = (y :: u8))"
proof (induction xs arbitrary: d)
  case (Cons p xs)
  obtain x y where p: "p = (x, y)" by force
  have "d OR (x XOR y) = 0 \<longleftrightarrow> d = 0 \<and> x = y"
    by (auto simp: bit_eq_iff bit_simps)
  with Cons.IH p show ?case by auto
qed simp

lemma constant_time_eq_eq [simp]: "constant_time_eq a b \<longleftrightarrow> a = b"
proof (cases "length a = length b")
  case True
  then have "(\<forall>(x, y) \<in> set (zip a b). x = y) \<longleftrightarrow> a = b"
    by (induction a b rule: list_induct2) auto
  with True show ?thesis by (simp add: constant_time_eq_def diff_fold_zero)
next
  case False
  then show ?thesis by (auto simp: constant_time_eq_def)
qed


end
