(* ===== verification/Sshd_Control.thy ===== *)
theory Sshd_Control
  imports Fs
begin

text \<open>
  \<^verbatim>\<open>src/sshd_control.rs\<close>: the trait behind which \<^verbatim>\<open>sshd\<close> is validated, reloaded and probed,
  and its production implementation that runs one of three fixed commands under a time limit.
  The programs started are not part of the crate: \<open>spawn\<close> is a parameter that says, for a
  command started in a given world, what the parent can observe of the child over time.
\<close>

section \<open>The trait and the configuration\<close>

record control =
  validate_config :: "unit helper"
  reload :: "unit helper"
  is_active :: "unit helper"

datatype run_outcome = Success | Failed | TimedOut

text \<open>Time is in milliseconds; the limit of a command is a whole number of seconds.\<close>

definition DEFAULT_COMMAND_TIMEOUT :: u64 where "DEFAULT_COMMAND_TIMEOUT = 15"
definition POLL_INTERVAL :: nat where "POLL_INTERVAL = 10"

record sshd_control_config =
  sshd_binary :: rstr
  systemctl_binary :: rstr
  service_name :: rstr
  command_timeout :: u64

definition SshdControlConfig_default :: sshd_control_config where
  "SshdControlConfig_default =
     \<lparr>sshd_binary = lit ''/usr/sbin/sshd'', systemctl_binary = lit ''/usr/bin/systemctl'',
      service_name = lit ''ssh'', command_timeout = DEFAULT_COMMAND_TIMEOUT\<rparr>"

definition SshdControlConfig_from_env :: "(rstr \<Rightarrow> rstr option) \<Rightarrow> sshd_control_config" where
  "SshdControlConfig_from_env get_env =
     (let cfg = SshdControlConfig_default;
          cfg = (case get_env (lit ''MAYFLY_HELPER_SSHD_BINARY'') of
                   Some v \<Rightarrow> cfg\<lparr>sshd_binary := v\<rparr> | None \<Rightarrow> cfg);
          cfg = (case get_env (lit ''MAYFLY_HELPER_SYSTEMCTL_BINARY'') of
                   Some v \<Rightarrow> cfg\<lparr>systemctl_binary := v\<rparr> | None \<Rightarrow> cfg);
          cfg = (case get_env (lit ''MAYFLY_HELPER_SERVICE_NAME'') of
                   Some v \<Rightarrow> cfg\<lparr>service_name := v\<rparr> | None \<Rightarrow> cfg);
          cfg = (case Option.bind (get_env (lit ''MAYFLY_HELPER_SSHD_TIMEOUT_SECS''))
                        (\<lambda>v. parse_unsigned 64 (trim v)) of
                   Some s \<Rightarrow> if 0 < s then cfg\<lparr>command_timeout := of_nat s\<rparr> else cfg
                 | None \<Rightarrow> cfg)
      in cfg)"

section \<open>Running a command\<close>

text \<open>
  What the parent sees of a child: the answer of \<^verbatim>\<open>try_wait\<close> at each time (\<open>Some\<close> whether it
  exited with status 0), how long after the exit its stderr pipe is closed by the last process
  holding it (\<open>None\<close>: never), how long \<^verbatim>\<open>wait\<close> takes after a kill (\<open>None\<close>: for ever), and by
  how much each sleep overruns.
\<close>

record child =
  try_wait :: "nat \<Rightarrow> io_kind + bool option"
  stderr_eof :: "nat option"
  reaped :: "nat option"
  oversleep :: "nat \<Rightarrow> nat"

type_synonym system = "world \<Rightarrow> rstr \<Rightarrow> rstr list \<Rightarrow> io_kind + child"

definition block :: "nat option \<Rightarrow> 'a \<Rightarrow> 'a helper" where
  "block d a w = (case d of None \<Rightarrow> (Abort Hang, w) | Some n \<Rightarrow> (Ok a, w\<lparr>clock := clock w + n\<rparr>))"

definition read_child_stderr :: "child \<Rightarrow> unit helper" where
  "read_child_stderr c = block (stderr_eof c) ()"

definition kill_and_wait :: "child \<Rightarrow> unit helper" where
  "kill_and_wait c = block (reaped c) ()"

function await :: "child \<Rightarrow> nat \<Rightarrow> world \<Rightarrow> (error, run_outcome) ret \<times> world" where
  "await c deadline w =
     (case try_wait c (clock w) of
        Inr (Some ok) \<Rightarrow>
          seq (read_child_stderr c) (return (if ok then Success else Failed)) w
      | Inr None \<Rightarrow>
          if deadline \<le> clock w then seq (kill_and_wait c) (return TimedOut) w
          else await c deadline (w\<lparr>clock := clock w + POLL_INTERVAL + oversleep c (clock w)\<rparr>)
      | Inl _ \<Rightarrow> seq (kill_and_wait c) (return Failed) w)"
  by pat_completeness auto
termination
  by (relation "measure (\<lambda>(c, deadline, w). deadline - clock w)") (auto simp: POLL_INTERVAL_def)

declare await.simps [simp del]

text \<open>
  \<^verbatim>\<open>Instant + Duration\<close> panics when the sum of the seconds leaves \<^verbatim>\<open>i64\<close>. Starting the program
  is recorded in the trace.
\<close>

definition run :: "system \<Rightarrow> sshd_control_config \<Rightarrow> rstr \<Rightarrow> rstr list \<Rightarrow> run_outcome helper" where
  "run sys cfg prog args w =
     (let w1 = w\<lparr>trace := trace w @ [Executed prog args]\<rparr> in
      case sys w prog args of
        Inl _ \<Rightarrow> (Ok Failed, w1)
      | Inr c \<Rightarrow>
          if 2 ^ 63 \<le> clock w div 1000 + unat (command_timeout cfg) then (Abort Panic, w1)
          else await c (clock w + 1000 * unat (command_timeout cfg)) w1)"

definition SystemSshdControl_validate_config :: "system \<Rightarrow> sshd_control_config \<Rightarrow> unit helper" where
  "SystemSshdControl_validate_config sys cfg =
     bind (run sys cfg (sshd_binary cfg) [lit ''-t'']) (\<lambda>r. case r of
       Success \<Rightarrow> return () | _ \<Rightarrow> throw SshdValidationFailed)"

definition SystemSshdControl_reload :: "system \<Rightarrow> sshd_control_config \<Rightarrow> unit helper" where
  "SystemSshdControl_reload sys cfg =
     bind (run sys cfg (systemctl_binary cfg) [lit ''reload'', service_name cfg]) (\<lambda>r. case r of
       Success \<Rightarrow> return () | _ \<Rightarrow> throw SshdReloadFailed)"

definition SystemSshdControl_is_active :: "system \<Rightarrow> sshd_control_config \<Rightarrow> unit helper" where
  "SystemSshdControl_is_active sys cfg =
     bind (run sys cfg (systemctl_binary cfg) [lit ''is-active'', service_name cfg]) (\<lambda>r. case r of
       Success \<Rightarrow> return () | _ \<Rightarrow> throw SshdInactive)"

definition SystemSshdControl :: "system \<Rightarrow> sshd_control_config \<Rightarrow> control" where
  "SystemSshdControl sys cfg =
     \<lparr>validate_config = SystemSshdControl_validate_config sys cfg,
      reload = SystemSshdControl_reload sys cfg,
      is_active = SystemSshdControl_is_active sys cfg\<rparr>"

section \<open>The contract of the trait\<close>

text \<open>
  What the privileged operations rely on: a control call runs programs but leaves the file
  system as it is, and fails with the error of its method. \<open>commands\<close> are the programs it may
  start.
\<close>

definition calm :: "(rstr \<times> rstr list) set \<Rightarrow> world \<Rightarrow> world \<Rightarrow> bool" where
  "calm C w w' \<longleftrightarrow> fs w' = fs w \<and> tick w' = tick w \<and> clock w \<le> clock w'
     \<and> (\<exists>evs. trace w' = trace w @ evs \<and> set evs \<subseteq> {Executed p as | p as. (p, as) \<in> C})"

lemma calm_refl [simp]: "calm C w w"
  by (simp add: calm_def)

lemma calm_trans [trans]: "calm C w w' \<Longrightarrow> calm C w' w'' \<Longrightarrow> calm C w w''"
  by (auto simp: calm_def)

lemma calm_passed: "calm C w w' \<Longrightarrow> passed S w w'"
  by (auto simp: calm_def passed_def)

definition obeys :: "(rstr \<times> rstr list) set \<Rightarrow> error \<Rightarrow> unit helper \<Rightarrow> bool" where
  "obeys C x m \<longleftrightarrow> (\<forall>w. wp m (\<lambda>r w'. calm C w w' \<and> (\<forall>y. r = Err y \<longrightarrow> y = x)) w)"

locale sshd_control =
  fixes ctl :: control and commands :: "(rstr \<times> rstr list) set"
  assumes validate_obeys: "obeys commands SshdValidationFailed (validate_config ctl)"
    and reload_obeys: "obeys commands SshdReloadFailed (reload ctl)"
    and active_obeys: "obeys commands SshdInactive (is_active ctl)"
begin

lemma wp_validate:
  "wp (validate_config ctl) (\<lambda>r w'. calm commands w w' \<and> (\<forall>y. r = Err y \<longrightarrow> y = SshdValidationFailed)) w"
  using validate_obeys by (simp add: obeys_def)

lemma wp_reload:
  "wp (reload ctl) (\<lambda>r w'. calm commands w w' \<and> (\<forall>y. r = Err y \<longrightarrow> y = SshdReloadFailed)) w"
  using reload_obeys by (simp add: obeys_def)

lemma wp_active:
  "wp (is_active ctl) (\<lambda>r w'. calm commands w w' \<and> (\<forall>y. r = Err y \<longrightarrow> y = SshdInactive)) w"
  using active_obeys by (simp add: obeys_def)

end

section \<open>The system control keeps the contract\<close>

lemma await_calm: "await c deadline w = (r, w') \<Longrightarrow> calm {} w w' \<and> (\<forall>y. r \<noteq> Err y)"
proof (induction c deadline w rule: await.induct)
  case (1 c deadline w)
  show ?case
  proof (cases "try_wait c (clock w) = Inr None \<and> \<not> deadline \<le> clock w")
    case True
    let ?w = "w\<lparr>clock := clock w + POLL_INTERVAL + oversleep c (clock w)\<rparr>"
    from True "1.prems" have "await c deadline ?w = (r, w')" by (subst (asm) await.simps) simp
    with "1.IH" True have "calm {} ?w w' \<and> (\<forall>y. r \<noteq> Err y)" by simp
    moreover have "calm {} w ?w" by (simp add: calm_def)
    ultimately show ?thesis using calm_trans by blast
  next
    case False
    with "1.prems" show ?thesis
      by (subst (asm) await.simps)
        (auto simp: act_simps read_child_stderr_def kill_and_wait_def block_def calm_def
          split: sum.splits option.splits if_splits)
  qed
qed

lemma run_calm: "run sys cfg prog args w = (r, w') \<Longrightarrow>
    calm {(prog, args)} w w' \<and> (\<forall>y. r \<noteq> Err y)"
  by (auto simp: run_def Let_def calm_def split: sum.splits if_splits dest!: await_calm)

text \<open>Each control call starts exactly one program.\<close>

lemma run_trace: "run sys cfg prog args w = (r, w') \<Longrightarrow>
    fs w' = fs w \<and> trace w' = trace w @ [Executed prog args] \<and> (\<forall>y. r \<noteq> Err y)"
  by (auto simp: run_def Let_def calm_def split: sum.splits if_splits dest!: await_calm)

lemma wp_run_command:
  "wp (bind (run sys cfg prog args) (\<lambda>r. case r of Success \<Rightarrow> return () | _ \<Rightarrow> throw x))
     (\<lambda>r w'. fs w' = fs w \<and> trace w' = trace w @ [Executed prog args] \<and> (\<forall>y. r = Err y \<longrightarrow> y = x)) w"
  by (auto simp: wp_def act_simps split: prod.splits ret.splits run_outcome.splits dest!: run_trace)

text \<open>The three commands the helper may ever start.\<close>

definition allow_list :: "sshd_control_config \<Rightarrow> (rstr \<times> rstr list) set" where
  "allow_list cfg =
     {(sshd_binary cfg, [lit ''-t'']), (systemctl_binary cfg, [lit ''reload'', service_name cfg]),
      (systemctl_binary cfg, [lit ''is-active'', service_name cfg])}"

lemma calm_mono: "calm C w w' \<Longrightarrow> C \<subseteq> D \<Longrightarrow> calm D w w'"
  unfolding calm_def by blast

lemma run_obeys:
  assumes "(prog, args) \<in> C"
  shows "obeys C x (bind (run sys cfg prog args) (\<lambda>r. case r of Success \<Rightarrow> return () | _ \<Rightarrow> throw x))"
  unfolding obeys_def wp_def
proof (intro allI)
  fix w
  obtain r w' where run: "run sys cfg prog args w = (r, w')" by fastforce
  from run_calm [OF run] assms have "calm C w w'" "\<forall>y. r \<noteq> Err y" by (auto elim: calm_mono)
  with run show "case bind (run sys cfg prog args) (\<lambda>r. case r of Success \<Rightarrow> return () | _ \<Rightarrow> throw x) w of
      (r, w') \<Rightarrow> calm C w w' \<and> (\<forall>y. r = Err y \<longrightarrow> y = x)"
    by (auto simp: act_simps split: ret.splits run_outcome.splits)
qed

interpretation system: sshd_control "SystemSshdControl sys cfg" "allow_list cfg" for sys cfg
  by unfold_locales
    (auto simp: SystemSshdControl_def SystemSshdControl_validate_config_def SystemSshdControl_reload_def
      SystemSshdControl_is_active_def allow_list_def intro!: run_obeys)


section \<open>Bounded execution\<close>

lemma await_returns:
  assumes "stderr_eof c = Some d" "reaped c = Some k" "d \<le> b" "k \<le> b" "\<And>t. oversleep c t \<le> l"
  shows "\<exists>r w'. await c deadline w = (Ok r, w') \<and> clock w' \<le> max (clock w) (deadline + POLL_INTERVAL + l) + b"
  using assms
proof (induction c deadline w rule: await.induct)
  case (1 c deadline w)
  let ?w = "w\<lparr>clock := clock w + POLL_INTERVAL + oversleep c (clock w)\<rparr>"
  show ?case
  proof (cases "try_wait c (clock w) = Inr None \<and> \<not> deadline \<le> clock w")
    case True
    then have step: "await c deadline w = await c deadline ?w" by (subst await.simps) simp
    have "clock ?w \<le> deadline + POLL_INTERVAL + l" using True "1.prems"(5) [of "clock w"] by simp
    with "1.IH" [of None] True "1.prems" step show ?thesis by fastforce
  next
    case False
    with "1.prems" show ?thesis
      by (subst await.simps)
        (auto simp: act_simps read_child_stderr_def kill_and_wait_def block_def
          split: sum.splits option.splits if_splits)
  qed
qed

text \<open>What an outcome tells about the child: it was seen to have exited, or overran the deadline.\<close>

definition outcome_seen :: "child \<Rightarrow> nat \<Rightarrow> nat \<Rightarrow> run_outcome \<Rightarrow> bool" where
  "outcome_seen c start deadline r \<longleftrightarrow>
     (\<exists>t \<ge> start. case r of
        Success \<Rightarrow> try_wait c t = Inr (Some True)
      | Failed \<Rightarrow> try_wait c t = Inr (Some False) \<or> (\<exists>k. try_wait c t = Inl k)
      | TimedOut \<Rightarrow> try_wait c t = Inr None \<and> deadline \<le> t)"

lemma outcome_seen_later: "outcome_seen c t deadline r \<Longrightarrow> s \<le> t \<Longrightarrow> outcome_seen c s deadline r"
  unfolding outcome_seen_def by (elim exE conjE) (rule exI, erule conjI [rotated], rule order_trans)

lemma await_outcome: "await c deadline w = (Ok r, w') \<Longrightarrow> outcome_seen c (clock w) deadline r"
proof (induction c deadline w rule: await.induct)
  case (1 c deadline w)
  let ?w = "w\<lparr>clock := clock w + POLL_INTERVAL + oversleep c (clock w)\<rparr>"
  show ?case
  proof (cases "try_wait c (clock w) = Inr None \<and> \<not> deadline \<le> clock w")
    case True
    then have step: "await c deadline w = await c deadline ?w" by (subst await.simps) simp
    with "1.IH" [of None] True "1.prems" have "outcome_seen c (clock ?w) deadline r" by simp
    then show ?thesis by (rule outcome_seen_later) simp
  next
    case False
    with "1.prems" show ?thesis
      by (subst (asm) await.simps)
        (auto simp: act_simps read_child_stderr_def kill_and_wait_def block_def outcome_seen_def
          split: sum.splits option.splits if_splits)
  qed
qed

text \<open>
  C23 (termination). A command whose stderr is closed within \<open>b\<close> milliseconds of its exit and which
  can be reaped within \<open>b\<close> after a kill is over within the configured limit, one poll interval,
  the overrun \<open>l\<close> of a sleep and \<open>b\<close>, however long the child itself would run; and the outcome
  is one the child was seen to have.
\<close>

theorem run_bounded:
  assumes "sys w prog args = Inr c"
    and "clock w div 1000 + unat (command_timeout cfg) < 2 ^ 63"
    and "stderr_eof c = Some d" "reaped c = Some k" "d \<le> b" "k \<le> b" "\<And>t. oversleep c t \<le> l"
  shows "\<exists>r w'. run sys cfg prog args w = (Ok r, w')
     \<and> clock w' \<le> clock w + 1000 * unat (command_timeout cfg) + POLL_INTERVAL + l + b
     \<and> outcome_seen c (clock w) (clock w + 1000 * unat (command_timeout cfg)) r"
proof -
  let ?w = "w\<lparr>trace := trace w @ [Executed prog args]\<rparr>"
  let ?dl = "clock w + 1000 * unat (command_timeout cfg)"
  from await_returns [OF assms(3-7), of ?dl ?w] obtain r w' where
    r: "await c ?dl ?w = (Ok r, w')" "clock w' \<le> ?dl + POLL_INTERVAL + l + b"
    by (auto simp: max_def split: if_splits)
  with await_outcome [OF r(1)] assms(1,2) show ?thesis by (auto simp: run_def)
qed

definition slow_child :: child where
  "slow_child = \<lparr>try_wait = (\<lambda>_. Inr None), stderr_eof = Some 0, reaped = Some 1, oversleep = (\<lambda>_. 0)\<rparr>"

theorem run_bounded_witness:
  "\<exists>r w'. run (\<lambda>_ _ _. Inr slow_child) SshdControlConfig_default [] [] (host []) = (Ok r, w')
     \<and> clock w' \<le> 15011 \<and> outcome_seen slow_child 0 15000 r"
  using run_bounded [of "\<lambda>_ _ _. Inr slow_child" "host []" "[]" "[]" slow_child SshdControlConfig_default 0 1 1 0]
  by (simp add: slow_child_def SshdControlConfig_default_def DEFAULT_COMMAND_TIMEOUT_def POLL_INTERVAL_def)

section \<open>The verdict on a command\<close>

text \<open>A child that exits at time \<open>x\<close>, with status 0 or not, and whose status can be asked for.\<close>

definition exits_at :: "child \<Rightarrow> nat \<Rightarrow> bool \<Rightarrow> bool" where
  "exits_at c x ok \<longleftrightarrow> (\<forall>t. try_wait c t = (if t < x then Inr None else Inr (Some ok)))"

lemma await_exit:
  assumes "exits_at c x ok" and "x \<le> deadline"
  shows "fst (await c deadline w) =
    (case stderr_eof c of None \<Rightarrow> Abort Hang | Some _ \<Rightarrow> Ok (if ok then Success else Failed))"
  using assms
proof (induction c deadline w rule: await.induct)
  case (1 c deadline w)
  show ?case
  proof (cases "clock w < x")
    case True
    with "1.prems" have "try_wait c (clock w) = Inr None" "\<not> deadline \<le> clock w" by (simp_all add: exits_at_def)
    with "1.IH" "1.prems" show ?thesis by (subst await.simps) simp
  next
    case False
    with "1.prems"(1) show ?thesis
      by (subst await.simps) (simp add: exits_at_def act_simps read_child_stderr_def block_def split: option.split)
  qed
qed

lemma await_overrun:
  assumes "exits_at c x ok" and "\<And>t. oversleep c t \<le> l" and "deadline + POLL_INTERVAL + l < x"
    and "clock w \<le> deadline + POLL_INTERVAL + l"
  shows "fst (await c deadline w) = (case reaped c of None \<Rightarrow> Abort Hang | Some _ \<Rightarrow> Ok TimedOut)"
  using assms
proof (induction c deadline w rule: await.induct)
  case (1 c deadline w)
  from "1.prems" have t: "try_wait c (clock w) = Inr None" by (simp add: exits_at_def)
  show ?case
  proof (cases "deadline \<le> clock w")
    case True
    with t show ?thesis by (subst await.simps) (simp add: act_simps kill_and_wait_def block_def split: option.split)
  next
    case False
    let ?w = "w\<lparr>clock := clock w + POLL_INTERVAL + oversleep c (clock w)\<rparr>"
    from False "1.prems"(2) [of "clock w"] have "clock ?w \<le> deadline + POLL_INTERVAL + l" by simp
    with "1.IH" [OF t refl False "1.prems"(1-3)] t False show ?thesis by (subst await.simps) simp
  qed
qed

text \<open>
  C29 (functional). The verdict on a command. A child that exits by the deadline, however late in the
  last poll interval the exit is seen, is never killed: the outcome is its own exit status, once
  its stderr is closed. A child that would run past the deadline by more than one poll interval and
  the overrun \<open>l\<close> of a sleep is killed and reported as timed out, once it can be reaped. The limit
  covers only the wait for the exit: when some process keeps the stderr of the exited child
  open, or the killed child cannot be reaped, the call does not return.
\<close>

theorem run_verdict:
  assumes "sys w prog args = Inr c" and "clock w div 1000 + unat (command_timeout cfg) < 2 ^ 63"
    and "exits_at c x ok" and "\<And>t. oversleep c t \<le> l"
  shows "(x \<le> clock w + 1000 * unat (command_timeout cfg) \<longrightarrow>
       fst (run sys cfg prog args w) =
         (case stderr_eof c of None \<Rightarrow> Abort Hang | Some _ \<Rightarrow> Ok (if ok then Success else Failed)))
   \<and> (clock w + 1000 * unat (command_timeout cfg) + POLL_INTERVAL + l < x \<longrightarrow>
       fst (run sys cfg prog args w) = (case reaped c of None \<Rightarrow> Abort Hang | Some _ \<Rightarrow> Ok TimedOut))"
proof -
  let ?w = "w\<lparr>trace := trace w @ [Executed prog args]\<rparr>" and ?dl = "clock w + 1000 * unat (command_timeout cfg)"
  have "fst (run sys cfg prog args w) = fst (await c ?dl ?w)" using assms(1,2) by (simp add: run_def)
  with await_exit [OF assms(3), of ?dl ?w] await_overrun [OF assms(3,4), of ?dl ?w] show ?thesis by simp
qed

text \<open>A child that exits between two polls while another process holds its stderr, and one that runs for a minute.\<close>

definition child_until :: "nat \<Rightarrow> nat option \<Rightarrow> child" where
  "child_until x eof = \<lparr>try_wait = (\<lambda>t. if t < x then Inr None else Inr (Some True)), stderr_eof = eof, reaped = Some 1,
     oversleep = (\<lambda>_. 2)\<rparr>"

theorem run_verdict_witness:
  "fst (run (\<lambda>_ _ _. Inr (child_until 14995 (Some 4))) SshdControlConfig_default [] [] (host [])) = Ok Success
   \<and> fst (run (\<lambda>_ _ _. Inr (child_until 25 None)) SshdControlConfig_default [] [] (host [])) = Abort Hang
   \<and> fst (run (\<lambda>_ _ _. Inr (child_until 60000 (Some 4))) SshdControlConfig_default [] [] (host [])) = Ok TimedOut"
proof -
  have c: "exits_at (child_until x eof) x True" for x eof by (simp add: exits_at_def child_until_def)
  have o: "oversleep (child_until x eof) t \<le> 2" for x eof t by (simp add: child_until_def)
  note verdict = run_verdict [of "\<lambda>_ _ _. Inr (child_until x eof)" "host []" "[]" "[]" "child_until x eof"
      SshdControlConfig_default x True 2 for x eof, OF refl _ c o]
  show ?thesis
    using verdict [of 14995 "Some 4"] verdict [of 25 None] verdict [of 60000 "Some 4"]
    by (simp add: child_until_def SshdControlConfig_default_def DEFAULT_COMMAND_TIMEOUT_def POLL_INTERVAL_def)
qed

section \<open>The configured limit\<close>

text \<open>
  A limit accepted from the environment can make the deadline overflow: with
  18446744073709551615 seconds the process panics right after starting any command.
\<close>

definition huge_timeout :: "rstr \<Rightarrow> rstr option" where
  "huge_timeout = [lit ''MAYFLY_HELPER_SSHD_TIMEOUT_SECS'' \<mapsto> lit ''18446744073709551615'']"

lemma run_huge_timeout_panics:
  assumes "sys w prog args = Inr c"
  shows "fst (run sys (SshdControlConfig_from_env huge_timeout) prog args w) = Abort Panic"
proof -
  have "command_timeout (SshdControlConfig_from_env huge_timeout) = 18446744073709551615"
    by (simp add: SshdControlConfig_from_env_def huge_timeout_def str_eval parse_unsigned_def
        digits_value_def is_digit_def Let_def)
  with assms show ?thesis by (simp add: run_def)
qed

text \<open>
  Whatever the environment holds, the limit of a command is positive; the two
  programs and the service are the configured ones or the defaults.
\<close>

theorem from_env_timeout_positive:
  "0 < command_timeout (SshdControlConfig_from_env get_env)
   \<and> sshd_binary (SshdControlConfig_from_env get_env) =
       (case get_env (lit ''MAYFLY_HELPER_SSHD_BINARY'') of None \<Rightarrow> lit ''/usr/sbin/sshd'' | Some v \<Rightarrow> v)
   \<and> systemctl_binary (SshdControlConfig_from_env get_env) =
       (case get_env (lit ''MAYFLY_HELPER_SYSTEMCTL_BINARY'') of None \<Rightarrow> lit ''/usr/bin/systemctl'' | Some v \<Rightarrow> v)
   \<and> service_name (SshdControlConfig_from_env get_env) =
       (case get_env (lit ''MAYFLY_HELPER_SERVICE_NAME'') of None \<Rightarrow> lit ''ssh'' | Some v \<Rightarrow> v)"
proof -
  have "(0::u64) < of_nat s" if "parse_unsigned 64 v = Some s" "0 < s" for v s
    using that by (auto simp: parse_unsigned_def word_less_nat_alt unat_of_nat Let_def split: if_splits)
  then show ?thesis
    by (auto simp: SshdControlConfig_from_env_def SshdControlConfig_default_def DEFAULT_COMMAND_TIMEOUT_def
        Let_def Option.bind_eq_Some_conv split: option.splits)
qed

end
