(* ===== verification/Ops.thy ===== *)
theory Ops
  imports Security Trusted_Ca Sshd_Config Protocol Sshd_Control
begin

text \<open>
  \<^verbatim>\<open>src/ops.rs\<close>: the privileged operations and their dispatch. Paths are kept as the text
  they are configured with, which is also what the drop-in quotes; every operation runs against
  the file system of \<open>Fs\<close> and an \<^verbatim>\<open>sshd\<close> control.
\<close>

section \<open>Definitions\<close>

definition DIR_MODE :: u32 where "DIR_MODE = 0x1ED"

record ops_config =
  trusted_ca_path :: rstr
  dropin_path :: rstr
  main_sshd_config :: rstr

definition OpsConfig_default :: ops_config where
  "OpsConfig_default =
     \<lparr>trusted_ca_path = lit ''/etc/ssh/mayfly/trusted_user_ca_keys'',
      dropin_path = lit ''/etc/ssh/sshd_config.d/90-mayfly.conf'',
      main_sshd_config = lit ''/etc/ssh/sshd_config''\<rparr>"

definition OpsConfig_from_env :: "(rstr \<Rightarrow> rstr option) \<Rightarrow> ops_config" where
  "OpsConfig_from_env get_env =
     (let cfg = OpsConfig_default;
          cfg = (case get_env (lit ''MAYFLY_HELPER_TRUSTED_CA_PATH'') of
                   Some v \<Rightarrow> cfg\<lparr>trusted_ca_path := v\<rparr> | None \<Rightarrow> cfg);
          cfg = (case get_env (lit ''MAYFLY_HELPER_DROPIN_PATH'') of
                   Some v \<Rightarrow> cfg\<lparr>dropin_path := v\<rparr> | None \<Rightarrow> cfg);
          cfg = (case get_env (lit ''MAYFLY_HELPER_MAIN_SSHD_CONFIG'') of
                   Some v \<Rightarrow> cfg\<lparr>main_sshd_config := v\<rparr> | None \<Rightarrow> cfg)
      in cfg)"

record helper_ops =
  config :: ops_config
  sshd :: control

definition HelperOps_new :: "ops_config \<Rightarrow> control \<Rightarrow> helper_ops" where
  "HelperOps_new cfg s = \<lparr>config = cfg, sshd = s\<rparr>"

definition read_optional :: "env \<Rightarrow> path \<Rightarrow> bytes option helper" where
  "read_optional e p =
     handle (fs_read e p) (\<lambda>bs. return (Some bs))
       (\<lambda>k. if k = NotFound then return None else throw (Io k))"

definition read_optional_string :: "env \<Rightarrow> path \<Rightarrow> rstr option helper" where
  "read_optional_string e p =
     bind (read_optional e p) (\<lambda>b. case b of
       None \<Rightarrow> return None
     | Some bs \<Rightarrow> (case from_utf8 bs of
                     None \<Rightarrow> throw HelperProtocol
                   | Some t \<Rightarrow> return (Some (trim_end t))))"

definition remove_optional :: "env \<Rightarrow> path \<Rightarrow> unit helper" where
  "remove_optional e p =
     handle (fs_remove_file e p) return (\<lambda>k. if k = NotFound then return () else throw (Io k))"

definition ensure_directory :: "env \<Rightarrow> path \<Rightarrow> unit helper" where
  "ensure_directory e dir =
     bind (path_exists e dir) (\<lambda>b.
     seq (if \<not> b then map_err Io (create_dir_all e dir) else return ())
     (seq (ensure_not_symlink e dir)
          (map_err Io (fs_set_permissions e dir DIR_MODE))))"

definition validate_reload_verify :: "helper_ops \<Rightarrow> unit helper" where
  "validate_reload_verify h =
     seq (validate_config (sshd h)) (seq (reload (sshd h)) (is_active (sshd h)))"

fun each_directory :: "env \<Rightarrow> path option list \<Rightarrow> unit helper" where
  "each_directory e [] = return ()"
| "each_directory e (None # ds) = each_directory e ds"
| "each_directory e (Some d # ds) = seq (ensure_directory e d) (each_directory e ds)"

definition ensure_directories :: "env \<Rightarrow> helper_ops \<Rightarrow> unit helper" where
  "ensure_directories e h =
     each_directory e [parent (components (trusted_ca_path (config h))),
                       parent (components (dropin_path (config h)))]"

definition rollback_path :: "env \<Rightarrow> helper_ops \<Rightarrow> path \<Rightarrow> bytes option \<Rightarrow> unit helper" where
  "rollback_path e h p previous =
     handle (case previous of Some bs \<Rightarrow> secure_write e p bs MODE_PUBLIC | None \<Rightarrow> remove_optional e p)
       (\<lambda>_. handle (validate_reload_verify h) return (\<lambda>_. return ()))
       (\<lambda>_. return ())"

definition ensure_include_present :: "env \<Rightarrow> helper_ops \<Rightarrow> unit helper" where
  "ensure_include_present e h =
     bind (read_optional_string e (components (main_sshd_config (config h)))) (\<lambda>t. case t of
       Some text \<Rightarrow> if includes_dropin_dir text DROPIN_DIR then return () else throw SshdValidationFailed
     | None \<Rightarrow> throw SshdValidationFailed)"

definition install_sshd_dropin :: "env \<Rightarrow> helper_ops \<Rightarrow> outcome helper" where
  "install_sshd_dropin e h =
     seq (ensure_directories e h)
     (seq (ensure_include_present e h)
     (let desired = render_dropin (trusted_ca_path (config h));
          p = components (dropin_path (config h)) in
      bind (read_optional_string e p) (\<lambda>current.
      if current = Some (trim_end desired) then return NotModified
      else
        seq (ensure_not_symlink e p)
        (bind (read_optional e p) (\<lambda>previous.
         seq (secure_write e p (as_bytes desired) MODE_PUBLIC)
         (handle (validate_reload_verify h)
            (\<lambda>_. return OutcomeOk)
            (\<lambda>err. seq (rollback_path e h p previous) (throw err))))))))"

definition apply_trusted_ca_keys :: "env \<Rightarrow> helper_ops \<Rightarrow> rstr \<Rightarrow> outcome helper" where
  "apply_trusted_ca_keys e h new_keys =
     bind (lift (TrustedCaKeys_parse new_keys)) (\<lambda>_.
     seq (ensure_directories e h)
     (let p = components (trusted_ca_path (config h)) in
      seq (ensure_not_symlink e p)
      (bind (read_optional e p) (\<lambda>previous.
       if previous = Some (as_bytes new_keys) then return NotModified
       else
         seq (secure_write e p (as_bytes new_keys) MODE_PUBLIC)
         (handle (validate_reload_verify h)
            (\<lambda>_. return Applied)
            (\<lambda>err. seq (rollback_path e h p previous) (throw err)))))))"

definition verify_state :: "env \<Rightarrow> helper_ops \<Rightarrow> unit helper" where
  "verify_state e h =
     (let p = components (trusted_ca_path (config h)); q = components (dropin_path (config h)) in
      seq (bind (read_optional e p) (\<lambda>b. case b of
             None \<Rightarrow> return ()
           | Some bs \<Rightarrow>
               seq (ensure_not_symlink e p)
               (seq (ensure_not_group_or_world_writable e p)
               (case from_utf8 bs of
                  None \<Rightarrow> throw HelperProtocol
                | Some text \<Rightarrow> seq (lift (TrustedCaKeys_parse text)) (return ())))))
      (seq (bind (read_optional_string e q) (\<lambda>t. case t of
              None \<Rightarrow> return ()
            | Some on_disk \<Rightarrow>
                seq (ensure_not_symlink e q)
                (seq (ensure_not_group_or_world_writable e q)
                (let expected = render_dropin (trusted_ca_path (config h)) in
                 if on_disk \<noteq> trim_end expected then throw SshdValidationFailed else return ()))))
      (seq (validate_config (sshd h)) (is_active (sshd h)))))"

definition CARGO_PKG_VERSION :: rstr where "CARGO_PKG_VERSION = lit ''0.1.0''"

definition to_response :: "unit helper \<Rightarrow> outcome \<Rightarrow> response helper" where
  "to_response m ok_outcome =
     handle m (\<lambda>_. return (Response_success ok_outcome))
       (\<lambda>err. return (Response_failure Unhealthy (error_display err)))"

definition dispatch :: "env \<Rightarrow> helper_ops \<Rightarrow> request \<Rightarrow> response helper" where
  "dispatch e h req =
     (case op req of
        Ping \<Rightarrow> return \<lparr>ok = True, outcome = OutcomeOk, helper_version = Some CARGO_PKG_VERSION, detail = None\<rparr>
      | EnsureDirectories \<Rightarrow> to_response (ensure_directories e h) OutcomeOk
      | InstallSshdDropin \<Rightarrow>
          handle (install_sshd_dropin e h) (\<lambda>r. return (Response_success r))
            (\<lambda>err. return (Response_failure Unhealthy (error_display err)))
      | ApplyTrustedCaKeys \<Rightarrow>
          (case content req of
             None \<Rightarrow> return (Response_failure RolledBack (lit ''missing content''))
           | Some c \<Rightarrow>
               handle (apply_trusted_ca_keys e h c) (\<lambda>r. return (Response_success r))
                 (\<lambda>err. return (Response_failure RolledBack (error_display err))))
      | VerifyState \<Rightarrow> to_response (verify_state e h) OutcomeOk)"


section \<open>Reading and directories\<close>

text \<open>What \<open>read_optional\<close> knows of the file it read, when the path is not a symbolic link.\<close>

definition previous_of :: "env \<Rightarrow> path \<Rightarrow> fs \<Rightarrow> bytes option \<Rightarrow> bool" where
  "previous_of e p f prev \<longleftrightarrow> (case prev of
     Some bs \<Rightarrow> \<exists>l. resolve e f False p = Inr l \<and> data f l = Some bs
   | None \<Rightarrow> \<forall>l. resolve e f False p = Inr l \<longrightarrow> f l = None)"

lemma read_previous:
  assumes "no_link e p f"
  shows "lookup e f True p = Inr (l, i) \<Longrightarrow> kind i = Regular bs \<Longrightarrow> previous_of e p f (Some bs)"
    and "lookup e f True p = Inl NotFound \<Longrightarrow> previous_of e p f None"
proof -
  have same: "resolve e f True p = Inr l" if "resolve e f False p = Inr l" for l
    using assms that by (auto simp: no_link_def intro: resolve_follow)
  show "lookup e f True p = Inr (l, i) \<Longrightarrow> kind i = Regular bs \<Longrightarrow> previous_of e p f (Some bs)"
    using resolve_nofollow [of e f p l] same by (fastforce simp: lookup_Inr previous_of_def data_def)
  show "lookup e f True p = Inl NotFound \<Longrightarrow> previous_of e p f None"
    using same by (auto simp: previous_of_def lookup_def split: option.splits)
qed

lemma wp_read_optional:
  "wp (read_optional e p) (\<lambda>r w'. fs w' = fs w \<and> trace w' = trace w
     \<and> (case r of Ok prev \<Rightarrow> (no_link e p (fs w) \<longrightarrow> previous_of e p (fs w) prev)
            \<and> (prev = None \<longrightarrow> lookup e (fs w) True p = Inl NotFound)
        | Err x \<Rightarrow> \<exists>k. x = Io k | Abort _ \<Rightarrow> False)) w"
  by (auto simp: read_optional_def fs_read_def read_at_def wp_simps read_previous
      split: option.splits sum.splits fkind.splits)

text \<open>The text of the file a path leads to, without trailing white space.\<close>

definition reads_as :: "env \<Rightarrow> path \<Rightarrow> fs \<Rightarrow> rstr \<Rightarrow> bool" where
  "reads_as e p f s \<longleftrightarrow> (\<exists>l bs t. resolve e f True p = Inr l \<and> data f l = Some bs
     \<and> from_utf8 bs = Some t \<and> s = trim_end t)"

lemma reads_as_keeps: "reads_as e p f s \<Longrightarrow> keeps f g \<Longrightarrow> reads_as e p g s"
  unfolding reads_as_def keeps_def by (blast intro: resolve_ext)

lemma wp_read_optional_string:
  "wp (read_optional_string e p) (\<lambda>r w'. fs w' = fs w \<and> trace w' = trace w
     \<and> (case r of Ok s \<Rightarrow> (\<forall>t. s = Some t \<longrightarrow> reads_as e p (fs w) t)
            \<and> (s = None \<longrightarrow> lookup e (fs w) True p = Inl NotFound)
        | Err x \<Rightarrow> x = HelperProtocol \<or> (\<exists>k. x = Io k) | Abort _ \<Rightarrow> False)) w"
  by (auto simp: read_optional_string_def read_optional_def fs_read_def read_at_def wp_simps reads_as_def lookup_Inr data_def
      split: option.splits sum.splits fkind.splits)

lemma stays_read_optional [stays_intros]: "stays I (read_optional e p)"
  unfolding read_optional_def by (intro stays_intros)

lemma stays_read_optional_string [stays_intros]: "stays I (read_optional_string e p)"
  unfolding read_optional_string_def by (intro stays_intros)

lemma same_ensure_directory [stays_intros]: "stays (same_data f) (ensure_directory e d)"
  unfolding ensure_directory_def by (intro stays_intros)

lemma same_each_directory [stays_intros]: "stays (same_data f) (each_directory e ds)"
  by (induction e ds rule: each_directory.induct) (simp_all only: each_directory.simps stays_intros)

lemma same_ensure_directories [stays_intros]: "stays (same_data f) (ensure_directories e h)"
  unfolding ensure_directories_def by (rule same_each_directory)

text \<open>A symlink check followed by a read: neither changes anything.\<close>

lemma wp_guarded_read:
  assumes "\<And>prev w2. fs w2 = fs w \<Longrightarrow> trace w2 = trace w \<Longrightarrow> no_link e p (fs w) \<Longrightarrow>
             previous_of e p (fs w) prev \<Longrightarrow> wp (body prev) Q w2"
    and "\<And>x w2. fs w2 = fs w \<Longrightarrow> trace w2 = trace w \<Longrightarrow> Q (Err x) w2"
  shows "wp (seq (ensure_not_symlink e p) (bind (read_optional e p) body)) Q w"
proof (rule wp_seqI [OF wp_ensure_not_symlink], goal_cases)
  case (1 a w1)
  show ?case
    by (rule wp_bindI [OF wp_read_optional]) (use 1 in \<open>auto intro: assms\<close>)
qed (auto intro: assms(2))

lemma ran_reads [stays_intros]:
  "always (ran C) (read_optional e p)" "always (ran C) (read_optional_string e p)"
  "always (ran C) (ensure_include_present e h)"
  unfolding read_optional_def read_optional_string_def ensure_include_present_def
  by (intro stays_intros)+

lemma ran_each_directory: "always (ran C) (each_directory e ds)"
proof (induction e ds rule: each_directory.induct)
  case (3 e d ds)
  then show ?case unfolding each_directory.simps ensure_directory_def by (intro stays_intros)
qed (simp_all only: each_directory.simps stays_intros)

lemma ran_updates' [stays_intros]:
  "always (ran C) (ensure_directories e h)" "always (ran C) (remove_optional e p)"
  unfolding ensure_directories_def remove_optional_def
  by (intro stays_intros ran_each_directory)+

section \<open>Replacing a managed file\<close>

text \<open>
  Against \<open>f\<close>, every file of \<open>g\<close> has the bytes it had, except that the managed file \<open>p\<close> may
  have exactly the bytes \<open>c\<close>; no directory is gone and no symbolic link came or went.
\<close>

definition kept :: "env \<Rightarrow> path \<Rightarrow> bytes \<Rightarrow> fs \<Rightarrow> fs \<Rightarrow> bool" where
  "kept e p c f g \<longleftrightarrow> fs_ext f g \<and>
     (\<forall>l d. data f l = Some d \<longrightarrow> data g l = Some d \<or> (resolve e g False p = Inr l \<and> data g l = Some c))"

lemma keeps_kept: "keeps f g \<Longrightarrow> kept e p c f g"
  by (auto simp: keeps_def kept_def)

lemma same_kept: "same_data f g \<Longrightarrow> kept e p c f g"
  by (simp add: keeps_kept same_keeps)

lemma kept_refl [simp]: "kept e p c f f"
  by (simp add: kept_def)

lemma kept_trans: "kept e p c f g \<Longrightarrow> kept e p c g h \<Longrightarrow> kept e p c f h"
  unfolding kept_def by (blast intro: fs_ext_trans resolve_ext)

lemma wp_dirs_kept:
  "wp (ensure_directories e' h) (\<lambda>r w'. same_data (fs w) (fs w') \<and> passed (kept e p c (fs w)) w w') w"
  by (rule wp_weaken [OF staysD [OF same_ensure_directories]]) (auto intro: same_kept elim: passed_mono)

lemma staged_keeps: "staged e p f g \<Longrightarrow> keeps f g"
  by (auto simp: staged_def intro!: keeps_new)

lemma installed_plain:
  "installed e p c m f g \<Longrightarrow> no_link e p f \<Longrightarrow>
     \<exists>l. resolve e f False p = Inr l \<and> resolve e g False p = Inr l \<and> plain f l \<and> g = f(l \<mapsto> new_file e c m)"
  unfolding installed_def no_link_def using resolve_plain_upd [where fl = False and p = p and e = e]
  by (elim exE conjE) (rule exI, auto simp: plain_def dir_at_def link_at_def)

lemma installed_kept: "installed e p c m f g \<Longrightarrow> no_link e p f \<Longrightarrow> kept e p c f g"
  using installed_plain [of e p c m f g] by (auto simp: kept_def fs_ext_plain split: if_splits)

lemma no_link_installed: "installed e p c m f g \<Longrightarrow> no_link e p f \<Longrightarrow> no_link e p g"
  using installed_plain [of e p c m f g] by (auto simp: no_link_def link_at_def)

definition holds :: "env \<Rightarrow> path \<Rightarrow> bytes \<Rightarrow> fs \<Rightarrow> bool" where
  "holds e p c f \<longleftrightarrow> (\<exists>l. resolve e f False p = Inr l \<and> data f l = Some c)"

lemma installed_holds: "installed e p c m f g \<Longrightarrow> no_link e p f \<Longrightarrow> holds e p c g"
  using installed_plain [of e p c m f g] by (auto simp: holds_def)

text \<open>Putting the previous bytes back over the new ones.\<close>

lemma reinstalled_kept:
  assumes "installed e p c m f g" "no_link e p f" "data f l = Some bs" "resolve e f False p = Inr l"
    and "installed e p bs m' g h"
  shows "keeps f h"
proof -
  from installed_plain [OF assms(1,2)] assms(4) have g: "g = f(l \<mapsto> new_file e c m)" "plain f l" by auto
  from installed_plain [OF assms(5) no_link_installed [OF assms(1,2)]] assms(4) g
  have "h = f(l \<mapsto> new_file e bs m')" by (auto simp: resolve_plain_upd)
  with assms(3) g(2) show ?thesis by (auto simp: keeps_def fs_ext_plain)
qed


text \<open>The common end of both file operations: replace, validate and reload, roll back on failure.\<close>

abbreviation replace_and_reload ::
  "env \<Rightarrow> helper_ops \<Rightarrow> path \<Rightarrow> bytes \<Rightarrow> bytes option \<Rightarrow> outcome \<Rightarrow> outcome helper" where
  "replace_and_reload e h p c prev done \<equiv>
     seq (secure_write e p c MODE_PUBLIC)
         (handle (validate_reload_verify h) (\<lambda>_. return done)
            (\<lambda>err. seq (rollback_path e h p prev) (throw err)))"

abbreviation sshd_errors :: "error set" where
  "sshd_errors \<equiv> {SshdValidationFailed, SshdReloadFailed, SshdInactive}"

lemma restored_kept:
  assumes "installed e p c m f g" "no_link e p f" "previous_of e p f (Some bs)"
    and "staged e p g x \<or> installed e p bs m' g x"
  shows "kept e p c f x"
  using assms(4)
proof
  assume "staged e p g x"
  with assms(1,2) show ?thesis by (blast intro: kept_trans installed_kept keeps_kept staged_keeps)
next
  assume "installed e p bs m' g x"
  with assms(1-3) show ?thesis
    by (auto simp: previous_of_def intro: keeps_kept reinstalled_kept)
qed

lemma wp_remove_optional_new:
  assumes inst: "installed e p c m f (fs w)" and "no_link e p f" and "previous_of e p f None"
  shows "wp (remove_optional e p) (\<lambda>r w'. passed (\<lambda>x. x = f) w w'
     \<and> (case r of Ok _ \<Rightarrow> fs w' = f | Err _ \<Rightarrow> fs w' = fs w \<and> fault e (tick w) \<noteq> None | Abort _ \<Rightarrow> False)) w"
proof -
  from installed_plain [OF inst assms(2)] assms(3) obtain l where
    l: "resolve e (fs w) False p = Inr l" "fs w = f(l \<mapsto> new_file e c m)" "f l = None"
    by (auto simp: previous_of_def)
  then have "lookup e (fs w) False p = Inr (l, new_file e c m)" "(fs w)(l := None) = f"
    by (simp_all add: lookup_Inr, auto)
  then show ?thesis
    by (auto simp: remove_optional_def fs_remove_file_def wp_simps passed_def split: option.splits)
qed

text \<open>The main configuration, as it was in \<open>f\<close> and where \<open>g\<close> resolves it, includes the drop-in directory.\<close>

definition include_seen :: "env \<Rightarrow> helper_ops \<Rightarrow> fs \<Rightarrow> fs \<Rightarrow> bool" where
  "include_seen e h f g \<longleftrightarrow> (\<exists>l bs t. resolve e g True (components (main_sshd_config (config h))) = Inr l
     \<and> data f l = Some bs \<and> from_utf8 bs = Some t \<and> includes_dropin_dir (trim_end t) DROPIN_DIR)"

lemma include_seen_later: "include_seen e h f g \<Longrightarrow> fs_ext g g' \<Longrightarrow> include_seen e h f g'"
  unfolding include_seen_def by (blast intro: resolve_ext)

lemma wp_ensure_include_present:
  "wp (ensure_include_present e h) (\<lambda>r w'. fs w' = fs w \<and> trace w' = trace w
     \<and> (case r of Ok _ \<Rightarrow> include_seen e h (fs w) (fs w)
        | Err x \<Rightarrow> x \<in> {SshdValidationFailed, HelperProtocol} \<or> (\<exists>k. x = Io k) | Abort _ \<Rightarrow> False)) w"
  unfolding ensure_include_present_def
  by (rule wp_bindI [OF wp_read_optional_string])
    (auto simp: wp_simps include_seen_def reads_as_def split: option.splits)

text \<open>
  A read that finds nothing: the path has no entry, or its entry is a symbolic link whose target
  does not exist.
\<close>

definition nothing_at :: "env \<Rightarrow> path \<Rightarrow> fs \<Rightarrow> bool" where
  "nothing_at e p f \<longleftrightarrow> lookup e f False p = Inl NotFound"

definition dangling :: "env \<Rightarrow> path \<Rightarrow> fs \<Rightarrow> bool" where
  "dangling e p f \<longleftrightarrow> (\<exists>l i t. lookup e f False p = Inr (l, i) \<and> kind i = Link t) \<and> lookup e f True p = Inl NotFound"

lemma not_found_iff: "lookup e f True p = Inl NotFound \<longleftrightarrow> nothing_at e p f \<or> dangling e p f"
proof (cases "resolve e f False p")
  case (Inl k)
  with resolve_nofollow_Inl [OF Inl] show ?thesis by (auto simp: nothing_at_def dangling_def lookup_def)
next
  case (Inr l)
  have "resolve e f True p = Inr l" if "\<And>t. \<not> link_at f l t" using Inr that by (rule resolve_follow)
  with Inr show ?thesis
    by (cases f l rule: node_cases) (auto simp: nothing_at_def dangling_def lookup_def link_at_def)
qed

text \<open>
  What \<open>verify_state\<close> has checked of the two managed files when it succeeds. It asks whether a path
  is a link only after a read that follows links has found something.
\<close>

definition ca_file_ok :: "env \<Rightarrow> helper_ops \<Rightarrow> fs \<Rightarrow> bool" where
  "ca_file_ok e h f \<longleftrightarrow> (let p = components (trusted_ca_path (config h)) in
     nothing_at e p f \<or> dangling e p f \<or>
     no_link e p f \<and> not_writable e p f \<and>
       (\<exists>bs t keys. holds e p bs f \<and> from_utf8 bs = Some t \<and> TrustedCaKeys_parse t = Inr keys))"

definition dropin_ok :: "env \<Rightarrow> helper_ops \<Rightarrow> fs \<Rightarrow> bool" where
  "dropin_ok e h f \<longleftrightarrow> (let p = components (dropin_path (config h)) in
     nothing_at e p f \<or> dangling e p f \<or>
     no_link e p f \<and> not_writable e p f \<and>
       reads_as e p f (trim_end (render_dropin (trusted_ca_path (config h)))))"

text \<open>A step that changes nothing and, when it succeeds, has seen \<open>P\<close>.\<close>

abbreviation sees :: "(fs \<Rightarrow> bool) \<Rightarrow> world \<Rightarrow> (error, 'a) ret \<Rightarrow> world \<Rightarrow> bool" where
  "sees P w \<equiv> (\<lambda>r w'. fs w' = fs w \<and> trace w' = trace w \<and> (case r of Ok _ \<Rightarrow> P (fs w) | _ \<Rightarrow> True))"

lemma wp_safe_file:
  assumes w0: "fs w0 = fs w" "trace w0 = trace w"
    and body: "\<And>w1. fs w1 = fs w \<Longrightarrow> trace w1 = trace w \<Longrightarrow> no_link e p (fs w) \<Longrightarrow>
             not_writable e p (fs w) \<Longrightarrow> wp m (sees P w) w1"
  shows "wp (seq (ensure_not_symlink e p) (seq (ensure_not_group_or_world_writable e p) m)) (sees P w) w0"
proof (rule wp_seqI [OF wp_ensure_not_symlink], goal_cases)
  case (1 a w1)
  show ?case
    by (rule wp_seqI [OF wp_ensure_not_writable]) (use 1 w0 in \<open>auto intro!: body\<close>)
qed (use w0 in auto)

lemma wp_check_ca_file:
  fixes h defines "p \<equiv> components (trusted_ca_path (config h))"
  shows "wp (bind (read_optional e p) (\<lambda>b. case b of
             None \<Rightarrow> return ()
           | Some bs \<Rightarrow>
               seq (ensure_not_symlink e p)
               (seq (ensure_not_group_or_world_writable e p)
               (case from_utf8 bs of
                  None \<Rightarrow> throw HelperProtocol
                | Some text \<Rightarrow> seq (lift (TrustedCaKeys_parse text)) (return ())))))
     (sees (ca_file_ok e h) w) w"
proof (rule wp_bindI [OF wp_read_optional], goal_cases)
  case (1 b w1)
  show ?case
  proof (cases b)
    case None
    with 1 show ?thesis by (auto simp: wp_return ca_file_ok_def p_def Let_def not_found_iff)
  next
    case (Some bs)
    have "wp (case from_utf8 bs of None \<Rightarrow> throw HelperProtocol
             | Some text \<Rightarrow> seq (lift (TrustedCaKeys_parse text)) (return ())) (sees (ca_file_ok e h) w) w2"
      if "fs w2 = fs w" "trace w2 = trace w" "no_link e p (fs w)" "not_writable e p (fs w)" for w2
      using 1 Some that
      by (auto simp: wp_simps ca_file_ok_def p_def Let_def previous_of_def holds_def split: option.splits sum.splits)
    with 1 Some show ?thesis by (auto intro!: wp_safe_file)
  qed
qed auto

lemma wp_check_dropin:
  fixes h defines "q \<equiv> components (dropin_path (config h))"
  shows "wp (bind (read_optional_string e q) (\<lambda>t. case t of
              None \<Rightarrow> return ()
            | Some on_disk \<Rightarrow>
                seq (ensure_not_symlink e q)
                (seq (ensure_not_group_or_world_writable e q)
                (if on_disk \<noteq> trim_end (render_dropin (trusted_ca_path (config h)))
                 then throw SshdValidationFailed else return ()))))
     (sees (dropin_ok e h) w) w"
proof (rule wp_bindI [OF wp_read_optional_string], goal_cases)
  case (1 t w1)
  show ?case
  proof (cases t)
    case None
    with 1 show ?thesis by (auto simp: wp_return dropin_ok_def q_def Let_def not_found_iff)
  next
    case (Some s)
    have "wp (if s \<noteq> trim_end (render_dropin (trusted_ca_path (config h)))
              then throw SshdValidationFailed else return ()) (sees (dropin_ok e h) w) w2"
      if "fs w2 = fs w" "trace w2 = trace w" "no_link e q (fs w)" "not_writable e q (fs w)" for w2
      using 1 Some that by (auto simp: wp_simps dropin_ok_def q_def Let_def)
    with 1 Some show ?thesis by (simp add: wp_safe_file del: not_None_eq)
  qed
qed auto

section \<open>A host in order\<close>

text \<open>
  \<open>dir_ready\<close>: the path is a directory of its own, no symbolic link. \<open>ready\<close>: moreover the file
  \<open>p\<close> is or can be put there, and the temporary names are unused.
\<close>

definition dir_ready :: "env \<Rightarrow> path \<Rightarrow> fs \<Rightarrow> bool" where
  "dir_ready e d f \<longleftrightarrow> (\<exists>ld. resolve e f False d = Inr ld \<and> dir_at f ld)"

definition ready :: "env \<Rightarrow> path \<Rightarrow> fs \<Rightarrow> bool" where
  "ready e p f \<longleftrightarrow> (\<exists>dir l. parent_of p = Inr dir \<and> dir_ready e dir f
     \<and> resolve e f False p = Inr l \<and> (f l = None \<or> (\<exists>d. data f l = Some d))
     \<and> (\<forall>n. \<exists>lt. resolve e f False (tmp_path e n dir) = Inr lt \<and> f lt = None \<and> lt \<noteq> l))"

definition host_ready :: "env \<Rightarrow> helper_ops \<Rightarrow> path \<Rightarrow> fs \<Rightarrow> bool" where
  "host_ready e h p f \<longleftrightarrow>
     list_all (\<lambda>d. case d of None \<Rightarrow> True | Some q \<Rightarrow> dir_ready e q f)
       [parent (components (trusted_ca_path (config h))), parent (components (dropin_path (config h)))]
     \<and> ready e p f"

lemma dir_readyD: "dir_ready e d f \<Longrightarrow> \<exists>ld. resolve e f True d = Inr ld \<and> dir_at f ld"
  unfolding dir_ready_def
  by (elim exE conjE, rule exI, rule conjI, erule resolve_follow) (auto simp: dir_at_def link_at_def split: option.splits)

lemma same_nodes_dir_ready: "same_nodes f g \<Longrightarrow> dir_ready e d g \<longleftrightarrow> dir_ready e d f"
  by (simp add: dir_ready_def same_nodes_at same_nodes_resolve)

lemma same_nodes_ready: "same_nodes f g \<Longrightarrow> ready e p g \<longleftrightarrow> ready e p f"
  by (simp add: ready_def dir_ready_def same_nodes_at same_nodes_resolve)

lemma ready_no_link: "ready e p f \<Longrightarrow> no_link e p f"
  by (auto simp: ready_def no_link_def plain_def dest!: data_plain) (simp add: link_at_def)

lemma ready_installed:
  assumes "ready e p f" and "installed e p c m f g"
  shows "ready e p g"
proof -
  from installed_plain [OF assms(2) ready_no_link [OF assms(1)]] obtain l where
    l: "resolve e f False p = Inr l" "plain f l" "g = f(l \<mapsto> new_file e c m)" by blast
  then have r: "resolve e g fl q = Inr k \<longleftrightarrow> resolve e f fl q = Inr k" for fl q k
    by (simp add: resolve_plain_upd)
  have d: "dir_at g k \<longleftrightarrow> dir_at f k" "g k = None \<longleftrightarrow> f k = None \<and> k \<noteq> l" for k
    using l(2,3) by (auto simp: dir_at_def plain_def)
  have "\<exists>d. data g l = Some d" using l(3) by simp
  with assms(1) show ?thesis unfolding ready_def dir_ready_def r d using l(1) by auto
qed

lemma dir_ready_installed:
  assumes "no_link e p f" and "installed e p c m f g" and "dir_ready e d f"
  shows "dir_ready e d g"
proof -
  from installed_plain [OF assms(2,1)] obtain l where
    l: "resolve e f False p = Inr l" "plain f l" "g = f(l \<mapsto> new_file e c m)" by blast
  from assms(3) obtain ld where ld: "resolve e f False d = Inr ld" "dir_at f ld" by (auto simp: dir_ready_def)
  from l ld(1) have "resolve e g False d = Inr ld" by (simp add: resolve_plain_upd)
  moreover have "dir_at g ld" using l(2,3) ld(2) by (auto simp: dir_at_def plain_def)
  ultimately show ?thesis by (auto simp: dir_ready_def)
qed

lemma host_ready_installed:
  assumes "host_ready e h p f" and "installed e p c m f g"
  shows "host_ready e h p g"
  using assms ready_installed [OF _ assms(2)] dir_ready_installed [OF _ assms(2)] ready_no_link [of e p f]
  by (auto simp: host_ready_def split: option.splits)

lemma host_ready_same: "same_nodes f g \<Longrightarrow> host_ready e h p g \<longleftrightarrow> host_ready e h p f"
  by (simp add: host_ready_def same_nodes_ready same_nodes_dir_ready split: option.splits)

text \<open>
  What a property of the file system needs to survive the operations on \<open>p\<close>: it does not depend
  on owners and permissions, and replacing the file at \<open>p\<close> keeps it.
\<close>

definition stable_at :: "env \<Rightarrow> path \<Rightarrow> (fs \<Rightarrow> bool) \<Rightarrow> bool" where
  "stable_at e p I \<longleftrightarrow> (\<forall>f g. I f \<and> same_nodes f g \<longrightarrow> I g) \<and> (\<forall>f g c m. I f \<and> installed e p c m f g \<longrightarrow> I g)"

lemma stable_same: "stable_at e p I \<Longrightarrow> I f \<Longrightarrow> same_nodes f g \<Longrightarrow> I g"
  unfolding stable_at_def by blast

lemma stable_installed: "stable_at e p I \<Longrightarrow> I f \<Longrightarrow> installed e p c m f g \<Longrightarrow> I g"
  unfolding stable_at_def by blast

lemma host_ready_stable: "stable_at e p (host_ready e h p)"
  unfolding stable_at_def by (blast intro: host_ready_installed dest: host_ready_same)

text \<open>The bytes at \<open>p\<close>, and no others, have become \<open>c\<close>.\<close>

definition overwritten :: "env \<Rightarrow> path \<Rightarrow> bytes \<Rightarrow> fs \<Rightarrow> fs \<Rightarrow> bool" where
  "overwritten e p c f g \<longleftrightarrow> (\<exists>l. resolve e f False p = Inr l \<and> data g = (data f)(l := Some c))"

lemma installed_overwritten:
  "installed e p c m f g \<Longrightarrow> no_link e p f \<Longrightarrow> overwritten e p c f g"
  using installed_plain [of e p c m f g] by (auto simp: overwritten_def intro!: ext)

lemma same_nodes_overwritten: "same_nodes f f' \<Longrightarrow> overwritten e p c f' g \<longleftrightarrow> overwritten e p c f g"
  by (simp add: overwritten_def same_nodes_at same_nodes_resolve)

lemma previous_holds: "previous_of e p f prev \<Longrightarrow> holds e p c f \<Longrightarrow> prev = Some c"
  by (auto simp: previous_of_def holds_def split: option.splits)

lemma same_nodes_holds: "same_nodes f g \<Longrightarrow> holds e p c g \<longleftrightarrow> holds e p c f"
  by (simp add: holds_def same_nodes_at same_nodes_resolve)

lemma secure_write_ready:
  assumes "fault e = (\<lambda>_. None)" and "ready e p (fs w)"
  shows "\<exists>w'. secure_write e p c m w = (Ok (), w') \<and> installed e p c m (fs w) (fs w')"
proof -
  from assms(2) obtain dir l lt where r: "parent_of p = Inr dir" "dir_ready e dir (fs w)"
    "resolve e (fs w) False p = Inr l" "plain (fs w) l"
    "resolve e (fs w) False (tmp_path e (tick w) dir) = Inr lt" "fs w lt = None" "lt \<noteq> l"
    unfolding ready_def by (blast intro: plain_None data_plain)
  from dir_readyD [OF r(2)] obtain ld where "resolve e (fs w) True dir = Inr ld" "dir_at (fs w) ld" by blast
  from secure_write_done [OF assms(1) r(1) this r(5,6,3,4) r(7) [symmetric], of c m] r(3,4) show ?thesis
    by (auto simp: installed_def plain_def)
qed

lemma guarded_read_ready:
  assumes ff: "fault e = (\<lambda>_. None)" and rd: "ready e p (fs w)"
    and body: "\<And>prev w2. fs w2 = fs w \<Longrightarrow> timeless e w w2 \<Longrightarrow> previous_of e p (fs w) prev \<Longrightarrow> wp (body prev) Q w2"
  shows "wp (seq (ensure_not_symlink e p) (bind (read_optional e p) body)) Q w"
proof -
  from rd obtain l where l: "resolve e (fs w) False p = Inr l" "fs w l = None \<or> (\<exists>d. data (fs w) l = Some d)"
    by (auto simp: ready_def)
  with ready_no_link [OF rd] have t: "resolve e (fs w) True p = Inr l"
    by (auto simp: no_link_def intro: resolve_follow)
  show ?thesis
  proof (cases "fs w l")
    case None
    with l t have "lookup e (fs w) fl p = Inl NotFound" for fl by (cases fl) (simp_all add: lookup_def)
    with None ff l body [of _ None] show ?thesis
      by (simp add: ensure_not_symlink_def is_symlink_def symlink_metadata_def read_optional_def fs_read_def read_at_def
          wp_simps previous_of_def timeless_def)
  next
    case (Some i)
    with l(2) obtain d where d: "kind i = Regular d" "data (fs w) l = Some d"
      by (auto simp: data_def split: fkind.splits)
    from Some l t have "lookup e (fs w) fl p = Inr (l, i)" for fl by (cases fl) (simp_all add: lookup_Inr)
    with d ff l body [of _ "Some d"] show ?thesis
      by (simp add: ensure_not_symlink_def is_symlink_def symlink_metadata_def read_optional_def fs_read_def read_at_def
          wp_simps previous_of_def timeless_def)
  qed
qed

lemma ensure_directory_ready:
  assumes "fault e = (\<lambda>_. None)" and "dir_ready e d (fs w)"
  shows "wp (ensure_directory e d) (\<lambda>r w'. r = Ok () \<and> same_nodes (fs w) (fs w')) w"
proof -
  from assms(2) obtain ld i where l: "resolve e (fs w) False d = Inr ld" "fs w ld = Some i" "kind i = Directory"
    by (auto simp: dir_ready_def dir_at_def split: option.splits)
  then have "resolve e (fs w) True d = Inr ld" by (auto intro!: resolve_follow simp: link_at_def)
  with l have "lookup e (fs w) fl d = Inr (ld, i)" for fl by (cases fl) (simp_all add: lookup_Inr)
  with l assms(1) show ?thesis
    by (simp add: ensure_directory_def path_exists_def metadata_def ensure_not_symlink_def is_symlink_def
        symlink_metadata_def fs_set_permissions_def set_mode_def wp_simps same_nodes_def)
qed

lemma timeless_ensure_directories: "always (timeless e) (ensure_directories e h)"
proof -
  have "always (timeless e) (each_directory e ds)" for ds
  proof (induction e ds rule: each_directory.induct)
    case (3 e d ds)
    then show ?case
      unfolding each_directory.simps ensure_directory_def ensure_not_symlink_def is_symlink_def
      by (intro stays_intros)
  qed (simp_all only: each_directory.simps stays_intros)
  then show ?thesis by (simp add: ensure_directories_def)
qed

lemma ensure_directories_ready:
  assumes "fault e = (\<lambda>_. None)" and "host_ready e h p (fs w)"
  shows "wp (ensure_directories e h) (\<lambda>r w'. r = Ok () \<and> same_nodes (fs w) (fs w') \<and> ready e p (fs w')
     \<and> timeless e w w') w"
proof -
  have "list_all (\<lambda>d. case d of None \<Rightarrow> True | Some q \<Rightarrow> dir_ready e q (fs w)) ds \<Longrightarrow>
        wp (each_directory e ds) (\<lambda>r w'. r = Ok () \<and> same_nodes (fs w) (fs w')) w" for ds w
    using assms(1)
  proof (induction e ds arbitrary: w rule: each_directory.induct)
    case (3 e d ds)
    show ?case
      unfolding each_directory.simps
    proof (rule wp_seqI [OF ensure_directory_ready], goal_cases)
      case (3 a w1)
      then have sn: "same_nodes (fs w) (fs w1)" by simp
      have "list_all (\<lambda>d. case d of None \<Rightarrow> True | Some q \<Rightarrow> dir_ready e q (fs w1)) ds"
        unfolding same_nodes_dir_ready [OF sn] using "3.prems"(1) by simp
      from "3.IH" [OF this "3.prems"(2)] show ?case
        by (rule wp_weaken) (use 3 in \<open>auto intro: same_nodes_trans\<close>)
    qed (use "3.prems" in auto)
  qed (simp_all add: wp_return)
  note dirs = this
  have "wp (ensure_directories e h) (\<lambda>r w'. r = Ok () \<and> same_nodes (fs w) (fs w') \<and> ready e p (fs w')) w"
    unfolding ensure_directories_def
    by (rule wp_weaken [OF dirs]) (use assms(2) in \<open>auto simp: host_ready_def same_nodes_ready\<close>)
  with timeless_ensure_directories [of e h] show ?thesis
    by (simp add: always_def wp_fst_snd)
qed

context sshd_control
begin

lemma wp_validate_reload_verify:
  assumes "sshd h = ctl"
  shows "wp (validate_reload_verify h)
     (\<lambda>r w'. calm commands w w' \<and> (\<forall>y. r = Err y \<longrightarrow> y \<in> sshd_errors)) w"
  unfolding validate_reload_verify_def assms
  by (auto intro!: wp_seqI [OF wp_validate] wp_seqI [OF wp_reload] wp_weaken [OF wp_active]
      elim: calm_trans)

lemma wp_rollback_path:
  assumes h: "sshd h = ctl" and inst: "installed e p c m f (fs w)" and nl: "no_link e p f"
    and prev: "previous_of e p f prev"
  shows "wp (rollback_path e h p prev)
     (\<lambda>r w'. kept e p c f (fs w') \<and> passed (kept e p c f) w w' \<and> (\<forall>y. r \<noteq> Err y)) w"
proof -
  let ?restore = "case prev of Some bs \<Rightarrow> secure_write e p bs MODE_PUBLIC | None \<Rightarrow> remove_optional e p"
  have "wp ?restore (\<lambda>r w'. kept e p c f (fs w') \<and> passed (kept e p c f) w w') w"
  proof (cases prev)
    case None
    with prev have "previous_of e p f None" by simp
    from wp_remove_optional_new [OF inst nl this] have
      "wp (remove_optional e p) (\<lambda>r w'. kept e p c f (fs w') \<and> passed (kept e p c f) w w') w"
    proof (rule wp_weaken, goal_cases)
      case (1 r w')
      with installed_kept [OF inst nl] show ?case by (cases r) (auto elim: passed_mono)
    qed
    with None show ?thesis by simp
  next
    case (Some bs)
    have "kept e p c f x" if "staged e p (fs w) x \<or> installed e p bs MODE_PUBLIC (fs w) x" for x
      using restored_kept [OF inst nl _ that] prev Some by simp
    then have "wp (secure_write e p bs MODE_PUBLIC) (\<lambda>r w'. kept e p c f (fs w') \<and> passed (kept e p c f) w w') w"
    proof (intro wp_weaken [OF wp_secure_write], goal_cases)
      case (1 r w')
      then show ?case by (cases r) (auto elim: passed_mono)
    qed
    with Some show ?thesis by simp
  qed
  note restore = this
  have check: "wp (handle (validate_reload_verify h) return (\<lambda>_. return ()))
     (\<lambda>r w'. fs w' = fs w1 \<and> passed (kept e p c f) w1 w' \<and> (\<forall>y. r \<noteq> Err y)) w1" for w1
    by (rule wp_handleI [OF wp_validate_reload_verify [OF h]]) (auto simp: wp_simps calm_def passed_def)
  show ?thesis
    unfolding rollback_path_def
    by (rule wp_handleI [OF restore]) (auto intro!: wp_weaken [OF check] simp: wp_return intro: passed_trans)
qed

lemma wp_replace_and_reload:
  assumes h: "sshd h = ctl" and nl: "no_link e p (fs w)" and prev: "previous_of e p (fs w) prev"
  shows "wp (replace_and_reload e h p c prev res)
     (\<lambda>r w'. kept e p c (fs w) (fs w') \<and> passed (kept e p c (fs w)) w w'
        \<and> (\<forall>a. r = Ok a \<longrightarrow> a = res \<and> installed e p c MODE_PUBLIC (fs w) (fs w'))) w"
proof (rule wp_seqI [OF wp_secure_write], goal_cases)
  case (1 a w1)
  note K = installed_kept [OF _ nl] keeps_kept [OF staged_keeps]
  from 1 have inst: "installed e p c MODE_PUBLIC (fs w) (fs w1)" and p1: "passed (kept e p c (fs w)) w w1"
    by (auto elim!: passed_mono intro: K)
  have run: "fs w2 = fs w1" "passed (kept e p c (fs w)) w w2" if "calm commands w1 w2" for w2
    using that passed_trans [OF p1 calm_passed [OF that]] by (auto simp: calm_def)
  show ?case
  proof (rule wp_handleI [OF wp_validate_reload_verify [OF h]], goal_cases)
    case (1 a w2)
    with inst K(1) [OF inst] run [of w2] show ?case by (simp add: wp_return)
  next
    case (3 a w2)
    with inst K(1) [OF inst] run [of w2] show ?case by simp
  next
    case (2 x w2)
    with inst run [of w2] have "installed e p c MODE_PUBLIC (fs w) (fs w2)" "passed (kept e p c (fs w)) w w2"
      by simp_all
    then show ?case
      by (intro wp_seqI [OF wp_rollback_path [OF h _ nl prev]])
        (auto simp: wp_simps intro: passed_trans)
  qed
qed (auto elim!: passed_mono intro: installed_kept [OF _ nl] keeps_kept [OF staged_keeps])

lemma wp_update_file:
  assumes h: "sshd h = ctl" and same: "same_data (fs w) (fs w1)" and p1: "passed (kept e p c (fs w)) w w1"
    and skip: "\<And>prev. b prev \<Longrightarrow> prev = Some c"
  shows "wp (seq (ensure_not_symlink e p) (bind (read_optional e p) (\<lambda>prev.
       if b prev then return NotModified else replace_and_reload e h p c prev res)))
     (\<lambda>r w'. kept e p c (fs w) (fs w') \<and> passed (kept e p c (fs w)) w w'
        \<and> (\<forall>a. r = Ok a \<longrightarrow> (a = res \<or> a = NotModified \<and> b (Some c))
              \<and> holds e p c (fs w') \<and> no_link e p (fs w'))) w1"
    (is "wp _ ?Q w1")
proof (rule wp_guarded_read, goal_cases)
  case (1 prev w2)
  have k1: "kept e p c (fs w) (fs w1)" using same by (rule same_kept)
  then have from1: "kept e p c (fs w) g" if "kept e p c (fs w1) g" for g using that by (rule kept_trans)
  have p2: "passed (kept e p c (fs w)) w w'" if "passed (kept e p c (fs w1)) w2 w'" for w'
    using passed_trans [OF p1] passed_mono [OF that from1] 1(2) by (simp add: passed_def)
  from 1 have nl: "no_link e p (fs w2)" and prev: "previous_of e p (fs w2) prev" by simp_all
  show ?case
  proof (cases "b prev")
    case True
    with skip have "prev = Some c" by blast
    with True k1 1 p2 [of w2] show ?thesis by (simp add: wp_return holds_def previous_of_def)
  next
    case False
    have "wp (replace_and_reload e h p c prev res) ?Q w2"
      by (rule wp_weaken [OF wp_replace_and_reload [OF h nl prev]])
        (use 1(1) nl in \<open>auto intro: from1 p2 installed_holds no_link_installed\<close>)
    with False show ?thesis by simp
  qed
qed (use p1 same_kept [OF same] in \<open>auto simp: passed_def\<close>)

lemma wp_apply_trusted_ca_keys:
  fixes new_keys :: rstr
  assumes h: "sshd h = ctl"
  defines "p \<equiv> components (trusted_ca_path (config h))" and "c \<equiv> as_bytes new_keys"
  shows "wp (apply_trusted_ca_keys e h new_keys)
     (\<lambda>r w'. kept e p c (fs w) (fs w') \<and> passed (kept e p c (fs w)) w w'
        \<and> (\<forall>a. r = Ok a \<longrightarrow> a \<in> {Applied, NotModified} \<and> holds e p c (fs w') \<and> no_link e p (fs w')
              \<and> (\<exists>t. TrustedCaKeys_parse new_keys = Inr t))) w"
proof (cases "TrustedCaKeys_parse new_keys")
  case (Inr t)
  show ?thesis
    unfolding apply_trusted_ca_keys_def Let_def Inr wp_bind lift_Inr wp_return
    unfolding ret.case p_def [symmetric] c_def [symmetric]
    by (rule wp_seqI [OF wp_dirs_kept [where e = e and p = p and c = c]])
      (auto intro!: wp_weaken [OF wp_update_file [OF h, where b = "\<lambda>prev. prev = Some c"]] intro: same_kept)
qed (simp add: apply_trusted_ca_keys_def wp_simps)

lemma wp_install_sshd_dropin:
  assumes h: "sshd h = ctl"
  defines "p \<equiv> components (dropin_path (config h))" and "s \<equiv> render_dropin (trusted_ca_path (config h))"
  defines "c \<equiv> as_bytes s"
  shows "wp (install_sshd_dropin e h)
     (\<lambda>r w'. kept e p c (fs w) (fs w') \<and> passed (kept e p c (fs w)) w w'
        \<and> (\<forall>a. r = Ok a \<longrightarrow> include_seen e h (fs w) (fs w')
              \<and> (a = OutcomeOk \<and> holds e p c (fs w') \<and> no_link e p (fs w')
                 \<or> a = NotModified \<and> reads_as e p (fs w') (trim_end s)))) w"
    (is "wp _ ?Q w")
  unfolding install_sshd_dropin_def Let_def
  unfolding p_def [symmetric] s_def [symmetric] c_def [symmetric]
proof (rule wp_seqI [OF wp_dirs_kept [where e = e and p = p and c = c]], goal_cases)
  case (1 a w1)
  note w1 = 1
  show ?case
  proof (rule wp_seqI [OF wp_ensure_include_present], goal_cases)
    case (1 a w2)
    from 1 w1 have w2: "same_data (fs w) (fs w2)" "passed (kept e p c (fs w)) w w2"
      "include_seen e h (fs w) (fs w2)" by (auto simp: passed_def include_seen_def same_data_def)
    show ?case
    proof (rule wp_bindI [OF wp_read_optional_string], goal_cases)
      case (1 current w3)
      then have w3: "same_data (fs w) (fs w3)" "passed (kept e p c (fs w)) w w3"
        "include_seen e h (fs w) (fs w3)" using w2 by (auto simp: passed_def)
      have "wp (seq (ensure_not_symlink e p) (bind (read_optional e p) (\<lambda>prev.
             replace_and_reload e h p c prev OutcomeOk))) ?Q w3"
        using wp_conj [OF wp_update_file [OF h w3(1,2), where b = "\<lambda>_. False" and res = OutcomeOk]
            wp_update_file [OF h same_refl passed_refl [OF refl, of _ w3], where b = "\<lambda>_. False" and res = OutcomeOk]]
        by (simp, elim wp_weaken) (auto simp: kept_def intro: include_seen_later [OF w3(3)])
      with w3 1 show ?case by (auto simp: wp_return same_kept)
    qed (use w2 in \<open>auto simp: passed_def same_kept\<close>)
  qed (use w1 in \<open>auto simp: passed_def same_kept\<close>)
qed (auto intro: same_kept)

lemma ran_control [stays_intros]:
  assumes "sshd h = ctl"
  shows "always (ran commands) (validate_config (sshd h))" "always (ran commands) (reload (sshd h))"
    "always (ran commands) (is_active (sshd h))" "always (ran commands) (validate_reload_verify h)"
proof -
  have calm: "ran commands w w'" if "calm commands w w'" for w w'
    using that by (auto simp: calm_def ran_def)
  show *: "always (ran commands) (validate_config (sshd h))" "always (ran commands) (reload (sshd h))"
    "always (ran commands) (is_active (sshd h))"
    unfolding always_def assms
    by (blast intro: calm wp_weaken [OF wp_validate] wp_weaken [OF wp_reload] wp_weaken [OF wp_active])+
  then show "always (ran commands) (validate_reload_verify h)"
    unfolding validate_reload_verify_def by (intro stays_intros)
qed

lemma ran_dispatch:
  assumes "sshd h = ctl"
  shows "always (ran commands) (dispatch e h req)"
proof -
  note ctl = ran_control [OF assms]
  have rb: "always (ran commands) (rollback_path e h p prev)" for p prev
    unfolding rollback_path_def by (intro stays_intros ctl)
  have "always (ran commands) (install_sshd_dropin e h)"
    unfolding install_sshd_dropin_def Let_def by (intro stays_intros ctl rb)
  moreover have "always (ran commands) (apply_trusted_ca_keys e h c)" for c
    unfolding apply_trusted_ca_keys_def Let_def by (intro stays_intros ctl rb)
  moreover have "always (ran commands) (verify_state e h)"
    unfolding verify_state_def Let_def by (intro stays_intros ctl)
  ultimately show ?thesis
    by (cases "op req") (auto simp: dispatch_def to_response_def intro!: stays_intros)
qed

lemma wp_verify_state:
  assumes h: "sshd h = ctl"
  shows "wp (verify_state e h) (\<lambda>r w'. fs w' = fs w \<and> passed (\<lambda>_. False) w w'
     \<and> (\<forall>a. r = Ok a \<longrightarrow> ca_file_ok e h (fs w) \<and> dropin_ok e h (fs w))) w"
  unfolding verify_state_def Let_def
proof (rule wp_seqI [OF wp_check_ca_file], goal_cases)
  case (1 a w1)
  note w1 = 1
  show ?case
  proof (rule wp_seqI [OF wp_check_dropin], goal_cases)
    case (1 a w2)
    with w1 have w2: "fs w2 = fs w" "trace w2 = trace w" "ca_file_ok e h (fs w)" "dropin_ok e h (fs w)"
      by simp_all
    have calm: "fs w' = fs w \<and> passed (\<lambda>_. False) w w'" if "calm commands w2 w'" for w'
      using that w2 by (auto simp: calm_def passed_def)
    have "wp (seq (validate_config (sshd h)) (is_active (sshd h))) (\<lambda>r w'. calm commands w2 w') w2"
      unfolding h by (auto intro!: wp_seqI [OF wp_validate] wp_weaken [OF wp_active] elim: calm_trans)
    then show ?case by (rule wp_weaken) (use w2 calm in auto)
  qed (use w1 in \<open>auto simp: passed_def\<close>)
qed auto

text \<open>
  With no failing call and a host in order, the end of both file operations succeeds, or fails
  with the error of a control call and all files have their old bytes.
\<close>

lemma wp_rollback_restores:
  assumes h: "sshd h = ctl" and ff: "fault e = (\<lambda>_. None)" and rd: "ready e p f"
    and prev: "previous_of e p f prev" and inst: "installed e p c m f (fs w)"
    and I: "stable_at e p I" "I f"
  shows "wp (rollback_path e h p prev) (\<lambda>r w'. data (fs w') = data f \<and> I (fs w') \<and> (\<forall>y. r \<noteq> Err y)) w"
proof -
  note nl = ready_no_link [OF rd]
  have "wp (case prev of Some bs \<Rightarrow> secure_write e p bs MODE_PUBLIC | None \<Rightarrow> remove_optional e p)
     (\<lambda>r w'. r = Ok () \<and> data (fs w') = data f \<and> I (fs w')) w"
  proof (cases prev)
    case None
    with prev have "previous_of e p f None" by simp
    from wp_remove_optional_new [OF inst nl this] have
      "wp (remove_optional e p) (\<lambda>r w'. r = Ok () \<and> data (fs w') = data f \<and> I (fs w')) w"
    proof (rule wp_weaken, goal_cases)
      case (1 r w')
      with ff I(2) show ?case by (cases r) auto
    qed
    with None show ?thesis by simp
  next
    case (Some bs)
    from secure_write_ready [OF ff ready_installed [OF rd inst]] obtain w' where
      w': "secure_write e p bs MODE_PUBLIC w = (Ok (), w')" "installed e p bs MODE_PUBLIC (fs w) (fs w')" by blast
    from installed_plain [OF inst nl] installed_plain [OF w'(2) no_link_installed [OF inst nl]] prev Some
    have "data (fs w') l = data f l" for l by (auto simp: previous_of_def)
    moreover have "I (fs w')" by (rule stable_installed [OF I(1) stable_installed [OF I inst] w'(2)])
    ultimately show ?thesis using w'(1) Some by (simp add: wp_def fun_eq_iff)
  qed
  note restore = this
  show ?thesis
    unfolding rollback_path_def
  proof (rule wp_handleI [OF restore], goal_cases)
    case (1 a w1)
    show ?case
      by (rule wp_handleI [OF wp_validate_reload_verify [OF h]]) (use 1 in \<open>auto simp: wp_return calm_def\<close>)
  qed auto
qed

lemma wp_replace_ready:
  assumes h: "sshd h = ctl" and ff: "fault e = (\<lambda>_. None)" and rd: "ready e p (fs w)"
    and prev: "previous_of e p (fs w) prev" and I: "stable_at e p I" "I (fs w)"
  shows "wp (replace_and_reload e h p c prev res) (\<lambda>r w'. case r of
       Ok a \<Rightarrow> a = res \<and> installed e p c MODE_PUBLIC (fs w) (fs w')
     | Err x \<Rightarrow> x \<in> sshd_errors \<and> data (fs w') = data (fs w) \<and> I (fs w') | Abort _ \<Rightarrow> True) w"
proof -
  from secure_write_ready [OF ff rd, of c MODE_PUBLIC] obtain w1 where
    w1: "secure_write e p c MODE_PUBLIC w = (Ok (), w1)" "installed e p c MODE_PUBLIC (fs w) (fs w1)" by blast
  have "wp (handle (validate_reload_verify h) (\<lambda>_. return res)
            (\<lambda>err. seq (rollback_path e h p prev) (throw err))) (\<lambda>r w'. case r of
       Ok a \<Rightarrow> a = res \<and> installed e p c MODE_PUBLIC (fs w) (fs w')
     | Err x \<Rightarrow> x \<in> sshd_errors \<and> data (fs w') = data (fs w) \<and> I (fs w') | Abort _ \<Rightarrow> True) w1"
  proof (rule wp_handleI [OF wp_validate_reload_verify [OF h]], goal_cases)
    case (1 a w2)
    then have "fs w2 = fs w1" by (simp add: calm_def)
    with w1(2) show ?case by (simp add: wp_return)
  next
    case (2 x w2)
    then have "fs w2 = fs w1" "x \<in> sshd_errors" by (auto simp: calm_def)
    moreover from this w1(2) have inst: "installed e p c MODE_PUBLIC (fs w) (fs w2)" by simp
    ultimately show ?case
      by (intro wp_seqI [OF wp_rollback_restores [OF h ff rd prev inst I]]) (auto simp: wp_throw)
  qed simp
  note rest = this
  have "wp (secure_write e p c MODE_PUBLIC) (\<lambda>r w'. r = Ok () \<and> w' = w1) w" by (simp add: wp_def w1(1))
  then show ?thesis by (rule wp_seqI) (use rest in auto)
qed

lemma timeless_secure_write: "always (timeless e) (secure_write e p c m)"
  unfolding secure_write_def drop_on_error_def atomic_replace_def fsync_dir_def split_def
  by (intro stays_intros)

lemma wp_replace_live:
  assumes ff: "fault e = (\<lambda>_. None)" and lat: "latency e = (\<lambda>_. 0)" and rd: "ready e p (fs w)"
    and up: "\<And>w1. clock w1 = clock w \<Longrightarrow> fst (validate_reload_verify h w1) = Ok ()"
  shows "wp (replace_and_reload e h p c prev res) (\<lambda>r w'. r = Ok res) w"
proof -
  from secure_write_ready [OF ff rd, of c MODE_PUBLIC] obtain w1 where
    w1: "secure_write e p c MODE_PUBLIC w = (Ok (), w1)" by blast
  from wpD [OF wp_timeless [OF timeless_secure_write lat] w1] have "clock w1 = clock w" .
  from up [OF this] w1 show ?thesis
    by (auto simp: wp_def act_simps split: prod.splits ret.splits)
qed

lemma wp_apply_ready:
  fixes new_keys :: rstr
  assumes h: "sshd h = ctl" and ff: "fault e = (\<lambda>_. None)"
  defines "p \<equiv> components (trusted_ca_path (config h))" and "c \<equiv> as_bytes new_keys"
  assumes rd: "host_ready e h p (fs w)" and valid: "TrustedCaKeys_parse new_keys = Inr t"
    and I: "stable_at e p I" "I (fs w)"
  shows "wp (apply_trusted_ca_keys e h new_keys) (\<lambda>r w'. case r of
       Ok a \<Rightarrow> holds e p c (fs w') \<and> I (fs w')
         \<and> (a = Applied \<and> overwritten e p c (fs w) (fs w')
            \<or> a = NotModified \<and> holds e p c (fs w) \<and> data (fs w') = data (fs w))
     | Err x \<Rightarrow> x \<in> sshd_errors \<and> data (fs w') = data (fs w) \<and> I (fs w') | Abort _ \<Rightarrow> True) w"
  unfolding apply_trusted_ca_keys_def Let_def valid wp_bind lift_Inr wp_return
  unfolding ret.case p_def [symmetric] c_def [symmetric]
proof (rule wp_seqI [OF ensure_directories_ready [OF ff rd]], goal_cases)
  case (1 a w1)
  then have sn: "same_nodes (fs w) (fs w1)" and rd1: "ready e p (fs w1)" by simp_all
  note w1 = same_nodes_at(5) [OF sn] rd1 stable_same [OF I sn]
  show ?case
  proof (rule guarded_read_ready [OF ff w1(2)], goal_cases)
    case (1 prev w2)
    with w1 have w2: "ready e p (fs w2)" "previous_of e p (fs w2) prev" "data (fs w2) = data (fs w)"
      "I (fs w2)" "same_nodes (fs w) (fs w2)" using sn by simp_all
    have inst: "holds e p c g" "overwritten e p c (fs w) g" "I g" if "installed e p c MODE_PUBLIC (fs w2) g" for g
      using installed_holds [OF that ready_no_link [OF w2(1)]] stable_installed [OF I(1) w2(4) that]
        installed_overwritten [OF that ready_no_link [OF w2(1)]] same_nodes_overwritten [OF w2(5)] by simp_all
    show ?case
    proof (cases "prev = Some c")
      case True
      then have "holds e p c (fs w2)" using w2(2) by (auto simp: previous_of_def holds_def)
      with True w2 show ?thesis by (simp add: wp_return same_nodes_holds)
    next
      case False
      with wp_replace_ready [OF h ff w2(1,2) I(1) w2(4), of c Applied] w2(3) show ?thesis
        by (auto elim!: wp_weaken split: ret.splits intro: inst)
    qed
  qed
qed auto

lemma wp_apply_live:
  fixes new_keys :: rstr
  assumes h: "sshd h = ctl" and ff: "fault e = (\<lambda>_. None)" and lat: "latency e = (\<lambda>_. 0)"
    and up: "\<And>w1. clock w1 = clock w \<Longrightarrow> fst (validate_reload_verify h w1) = Ok ()"
    and rd: "host_ready e h (components (trusted_ca_path (config h))) (fs w)"
    and valid: "TrustedCaKeys_parse new_keys = Inr t"
  shows "wp (apply_trusted_ca_keys e h new_keys) (\<lambda>r w'. r = Ok Applied \<or> r = Ok NotModified) w"
  unfolding apply_trusted_ca_keys_def Let_def valid wp_bind lift_Inr wp_return
  unfolding ret.case
proof (rule wp_seqI [OF ensure_directories_ready [OF ff rd]], goal_cases)
  case (1 a w1)
  then have w1: "ready e (components (trusted_ca_path (config h))) (fs w1)" "clock w1 = clock w" by (auto simp: timeless_def lat)
  show ?case
  proof (rule guarded_read_ready [OF ff w1(1)], goal_cases)
    case (1 prev w2)
    with w1 have "ready e (components (trusted_ca_path (config h))) (fs w2)"
      "\<And>w3. clock w3 = clock w2 \<Longrightarrow> fst (validate_reload_verify h w3) = Ok ()" by (simp_all add: up timeless_def lat)
    note live = wp_replace_live [OF ff lat this, of "as_bytes new_keys" Applied prev]
    show ?case by (auto simp: wp_return intro: wp_weaken [OF live])
  qed
qed auto

lemma wp_apply_again:
  fixes new_keys :: rstr
  assumes h: "sshd h = ctl" and ff: "fault e = (\<lambda>_. None)"
  defines "p \<equiv> components (trusted_ca_path (config h))" and "c \<equiv> as_bytes new_keys"
  assumes rd: "host_ready e h p (fs w)" and holds: "holds e p c (fs w)"
    and valid: "TrustedCaKeys_parse new_keys = Inr t"
  shows "wp (apply_trusted_ca_keys e h new_keys) (\<lambda>r w'. r = Ok NotModified \<and> data (fs w') = data (fs w)) w"
  unfolding apply_trusted_ca_keys_def Let_def valid wp_bind lift_Inr wp_return
  unfolding ret.case p_def [symmetric] c_def [symmetric]
proof (rule wp_seqI [OF ensure_directories_ready [OF ff rd]], goal_cases)
  case (1 a w1)
  with holds have w1: "data (fs w1) = data (fs w)" "ready e p (fs w1)" "holds e p c (fs w1)"
    by (auto simp: same_nodes_at same_nodes_holds)
  show ?case
    by (rule guarded_read_ready [OF ff w1(2)]) (use w1 previous_holds in \<open>auto simp: wp_return\<close>)
qed auto

end

section \<open>Responses\<close>

text \<open>Every text a response of an operation can carry.\<close>

definition messages :: "rstr list" where
  "messages = lit ''missing content'' #
     map error_display ([Io NotFound, UnexpectedSymlink, InsecureOwnership, InsecurePermissions, InvalidPath,
        NotRoot, HelperUnavailable, HelperProtocol, HelperUnauthenticated, PeerCredUnavailable,
        SshdValidationFailed, SshdReloadFailed, SshdInactive]
      @ map InvalidTrustedCa [Empty, Malformed, DisallowedAlgorithm, InvalidEncoding, IllegalCharacter])"

lemma error_display_messages [simp]: "error_display x \<in> set messages"
proof (cases x)
  case (InvalidTrustedCa y)
  then show ?thesis by (cases y) (simp_all add: messages_def del: error_display.simps)
qed (simp_all add: messages_def del: error_display.simps, simp)

definition proper :: "rstr list \<Rightarrow> response \<Rightarrow> bool" where
  "proper ms r \<longleftrightarrow> (case detail r of None \<Rightarrow> ok r | Some d \<Rightarrow> \<not> ok r \<and> d \<in> set ms \<and> helper_version r = None)"

lemma proper_success [simp]: "proper ms (Response_success r)"
  by (simp add: proper_def Response_success_def)

lemma proper_failure [simp]: "proper ms (Response_failure r d) \<longleftrightarrow> d \<in> set ms"
  by (simp add: proper_def Response_failure_def)

lemma proper_ping [simp]:
  "proper ms \<lparr>ok = True, outcome = r, helper_version = v, detail = None\<rparr>"
  by (simp add: proper_def)

lemma missing_content_message [simp]: "lit ''missing content'' \<in> set messages"
  by (simp add: messages_def)

lemma wp_respond:
  "wp (handle m (\<lambda>a. return (Response_success (f a))) (\<lambda>x. return (Response_failure r (error_display x))))
     (\<lambda>r w'. case r of Ok resp \<Rightarrow> proper messages resp | Err _ \<Rightarrow> False | Abort _ \<Rightarrow> True) w"
  by (rule wp_handleI [where P = "\<lambda>_ _. True"]) (simp_all add: wp_return)

end
