(* ===== verification/Ops_Safety.thy ===== *)
theory Ops_Safety
  imports Ops
begin

text \<open>
  The properties of the privileged operations over the control that runs the real programs:
  crash and fault safety, the meaning of every success, rollback, idempotence and liveness on a
  host in order, what the requests of a whole life can change, and what the answers can say.
  Each rests on the lemmas of \<open>Ops\<close> through the interpretation of the control's contract.
\<close>

section \<open>The default layout\<close>

lemma default_paths:
  "components (trusted_ca_path OpsConfig_default) =
     [RootDir, Normal (lit ''etc''), Normal (lit ''ssh''), Normal (lit ''mayfly''), Normal (lit ''trusted_user_ca_keys'')]"
  "components (dropin_path OpsConfig_default) =
     [RootDir, Normal (lit ''etc''), Normal (lit ''ssh''), Normal (lit ''sshd_config.d''), Normal (lit ''90-mayfly.conf'')]"
  "components (main_sshd_config OpsConfig_default) =
     [RootDir, Normal (lit ''etc''), Normal (lit ''ssh''), Normal (lit ''sshd_config'')]"
  by (simp_all add: OpsConfig_default_def components_def lit_def starts_with_def List.map_filter_def piece_comp_def)

lemma host_resolve [simp]:
  "resolve host_env (host_fs c) fl [RootDir, Normal (lit ''etc''), Normal (lit ''ssh''), Normal (lit ''mayfly'')]
     = Inr [lit ''etc'', lit ''ssh'', lit ''mayfly'']"
  "resolve host_env (host_fs c) fl [RootDir, Normal (lit ''etc''), Normal (lit ''ssh''), Normal (lit ''sshd_config.d'')]
     = Inr [lit ''etc'', lit ''ssh'', lit ''sshd_config.d'']"
  by (simp_all add: resolve_def host_fs_def dir_node_def lit_def)

lemma host_is_ready:
  assumes "config h = OpsConfig_default"
  shows "host_ready host_env h (components (trusted_ca_path OpsConfig_default)) (host_fs c)"
    "host_ready host_env h (components (dropin_path OpsConfig_default)) (host_fs c)"
  unfolding host_ready_def assms default_paths
  by (simp_all add: parent_def dir_ready_def ready_def parent_of_def dir_at_def tmp_path_def)
    (simp_all add: resolve_def host_fs_def dir_node_def lit_def)

section \<open>Rollback of the drop-in\<close>

context sshd_control
begin

lemma wp_install_ready:
  assumes h: "sshd h = ctl" and ff: "fault e = (\<lambda>_. None)"
  defines "p \<equiv> components (dropin_path (config h))" and "t \<equiv> render_dropin (trusted_ca_path (config h))"
  assumes rd: "host_ready e h p (fs w)" and I: "stable_at e p I" "I (fs w)"
  shows "wp (install_sshd_dropin e h) (\<lambda>r w'. case r of
       Ok a \<Rightarrow> I (fs w')
         \<and> (a = OutcomeOk \<and> holds e p (as_bytes t) (fs w') \<and> overwritten e p (as_bytes t) (fs w) (fs w')
            \<or> a = NotModified \<and> reads_as e p (fs w') (trim_end t) \<and> data (fs w') = data (fs w))
     | Err x \<Rightarrow> data (fs w') = data (fs w) \<and> I (fs w') | Abort _ \<Rightarrow> True) w"
    (is "wp _ ?Q w")
  unfolding install_sshd_dropin_def Let_def
  unfolding p_def [symmetric] t_def [symmetric]
proof (rule wp_seqI [OF ensure_directories_ready [OF ff rd]], goal_cases)
  case (1 a w1)
  then have sn: "same_nodes (fs w) (fs w1)" and rd1: "ready e p (fs w1)" by simp_all
  have at: "data (fs w') = data (fs w)" "ready e p (fs w')" "I (fs w')" "same_nodes (fs w) (fs w')"
    if "fs w' = fs w1" for w'
    using that sn rd1 same_nodes_at(5) [OF sn] stable_same [OF I sn] by simp_all
  show ?case
  proof (rule wp_seqI [OF wp_ensure_include_present], goal_cases)
    case (1 a w2)
    then have w2: "fs w2 = fs w1" by simp
    show ?case
    proof (rule wp_bindI [OF wp_read_optional_string], goal_cases)
      case (1 current w3)
      then have w3: "fs w3 = fs w1" using w2 by simp
      have "wp (seq (ensure_not_symlink e p) (bind (read_optional e p) (\<lambda>prev.
             replace_and_reload e h p (as_bytes t) prev OutcomeOk))) ?Q w3"
      proof (rule guarded_read_ready [OF ff at(2) [OF w3]], goal_cases)
        case (1 prev w4)
        with w3 have w4: "fs w4 = fs w1" "previous_of e p (fs w4) prev" by simp_all
        note nl = ready_no_link [OF at(2) [OF w4(1)]]
        have inst: "holds e p (as_bytes t) g" "overwritten e p (as_bytes t) (fs w) g" "I g"
          if "installed e p (as_bytes t) MODE_PUBLIC (fs w4) g" for g
          using installed_holds [OF that nl] stable_installed [OF I(1) at(3) [OF w4(1)] that]
            installed_overwritten [OF that nl] same_nodes_overwritten [OF at(4) [OF w4(1)]] by simp_all
        from wp_replace_ready [OF h ff at(2) [OF w4(1)] w4(2) I(1) at(3) [OF w4(1)], of "as_bytes t" OutcomeOk]
          at(1) [OF w4(1)] show ?case
          by (auto elim!: wp_weaken split: ret.splits intro: inst)
      qed
      with 1 at [OF w3] show ?case by (auto simp: wp_return)
    qed (use at w2 in auto)
  qed (use at in auto)
qed auto

end

section \<open>The production helper\<close>

text \<open>The operations as the binary builds them, over the control that runs the real programs.\<close>

definition production :: "system \<Rightarrow> sshd_control_config \<Rightarrow> ops_config \<Rightarrow> helper_ops" where
  "production sys sc cfg = HelperOps_new cfg (SystemSshdControl sys sc)"

lemma production_sel [simp]:
  "sshd (production sys sc cfg) = SystemSshdControl sys sc" "config (production sys sc cfg) = cfg"
  by (simp_all add: production_def HelperOps_new_def)

text \<open>Sample programs and a sample request, for the conditional theorems below.\<close>

definition no_programs :: system where
  "no_programs = (\<lambda>_ _ _. Inl NotFound)"

definition healthy :: system where
  "healthy = (\<lambda>_ _ _. Inr \<lparr>try_wait = (\<lambda>_. Inr (Some True)), stderr_eof = Some 0, reaped = Some 0,
     oversleep = (\<lambda>_. 0)\<rparr>)"

definition sample_keys :: rstr where
  "sample_keys = lit ''ssh-rsa AAAA ca''"

lemma sample_keys_parse:
  "TrustedCaKeys_parse sample_keys =
     Inr \<lparr>keys = [\<lparr>algorithm = lit ''ssh-rsa'', key_data = lit ''AAAA'', comment = Some (lit ''ca'')\<rparr>]\<rparr>"
  by (simp add: sample_keys_def ca_eval)

lemma healthy_up:
  "clock w = 0 \<Longrightarrow> fst (validate_reload_verify (production healthy SshdControlConfig_default cfg) w) = Ok ()"
  by (simp add: validate_reload_verify_def SystemSshdControl_def SystemSshdControl_validate_config_def
      SystemSshdControl_reload_def SystemSshdControl_is_active_def run_def healthy_def await.simps act_simps
      read_child_stderr_def block_def SshdControlConfig_default_def DEFAULT_COMMAND_TIMEOUT_def)

text \<open>
  C7 (safety). Crash and fault safety of \<open>apply_trusted_ca_keys\<close>. Whatever system calls fail and
  whatever \<^verbatim>\<open>sshd\<close> and \<^verbatim>\<open>systemctl\<close> do, in every file system state on the way and in the last
  one, every file has the bytes it had before, except that the managed file may have exactly
  the bytes of the request; no directory is lost and no symbolic link replaced or created.
\<close>

theorem apply_crash_safe:
  "wp (apply_trusted_ca_keys e (production sys sc cfg) new_keys)
     (\<lambda>r w'. kept e (components (trusted_ca_path cfg)) (as_bytes new_keys) (fs w) (fs w')
        \<and> passed (kept e (components (trusted_ca_path cfg)) (as_bytes new_keys) (fs w)) w w') w"
  using system.wp_apply_trusted_ca_keys [of "production sys sc cfg" sys sc e new_keys w]
  by (auto elim!: wp_weaken)

text \<open>
  C12 (functional). A success of \<open>apply_trusted_ca_keys\<close> means what it says, whatever failed on
  the way: the outcome is \<open>Applied\<close> or \<open>NotModified\<close>, the request was a well-formed list of
  allowed keys, and the managed path is now a regular file of its own with exactly its bytes.
\<close>

theorem apply_ok_sound:
  "wp (apply_trusted_ca_keys e (production sys sc cfg) new_keys)
     (\<lambda>r w'. case r of
        Ok a \<Rightarrow> a \<in> {Applied, NotModified} \<and> TrustedCaKeys_parse new_keys \<in> range Inr
             \<and> holds e (components (trusted_ca_path cfg)) (as_bytes new_keys) (fs w')
             \<and> no_link e (components (trusted_ca_path cfg)) (fs w')
      | _ \<Rightarrow> True) w"
  using system.wp_apply_trusted_ca_keys [of "production sys sc cfg" sys sc e new_keys w]
  by (auto elim!: wp_weaken split: ret.splits)

text \<open>
  C8 (functional). Rollback. On a host in order and with no failing call, a well-formed request
  is applied, or the answer is the error of one of the three \<^verbatim>\<open>sshd\<close> commands and every file of
  the host, the managed one included, has the bytes it had before.
\<close>

theorem apply_all_or_nothing:
  assumes "fault e = (\<lambda>_. None)" and "TrustedCaKeys_parse new_keys = Inr t"
    and "host_ready e (production sys sc cfg) (components (trusted_ca_path cfg)) (fs w)"
  shows "wp (apply_trusted_ca_keys e (production sys sc cfg) new_keys)
     (\<lambda>r w'. case r of
        Ok a \<Rightarrow> a \<in> {Applied, NotModified} \<and> holds e (components (trusted_ca_path cfg)) (as_bytes new_keys) (fs w')
      | Err x \<Rightarrow> x \<in> {SshdValidationFailed, SshdReloadFailed, SshdInactive} \<and> data (fs w') = data (fs w)
      | Abort _ \<Rightarrow> True) w"
  using system.wp_apply_ready [of "production sys sc cfg" sys sc e w new_keys t, OF _ _ _ _ host_ready_stable [where h = "production sys sc cfg"]] assms
  by (auto elim!: wp_weaken split: ret.splits)

theorem apply_all_or_nothing_witness:
  "wp (apply_trusted_ca_keys host_env (production no_programs SshdControlConfig_default OpsConfig_default) sample_keys)
     (\<lambda>r w'. case r of
        Ok a \<Rightarrow> a \<in> {Applied, NotModified}
          \<and> holds host_env (components (trusted_ca_path OpsConfig_default)) (as_bytes sample_keys) (fs w')
      | Err x \<Rightarrow> x \<in> {SshdValidationFailed, SshdReloadFailed, SshdInactive} \<and> data (fs w') = data (fs (host []))
      | Abort _ \<Rightarrow> True) (host [])"
  using apply_all_or_nothing [OF _ sample_keys_parse, of host_env no_programs SshdControlConfig_default
      OpsConfig_default "host []"] by (simp add: host_is_ready)

text \<open>
  On a host in order, with no failing call, no slow one, and the three commands succeeding, a
  well-formed request is answered with a success: \<open>Applied\<close>, or \<open>NotModified\<close>.
\<close>

theorem apply_succeeds:
  assumes "fault e = (\<lambda>_. None)" and "latency e = (\<lambda>_. 0)" and "TrustedCaKeys_parse new_keys = Inr t"
    and "host_ready e (production sys sc cfg) (components (trusted_ca_path cfg)) (fs w)"
    and "\<And>w1. clock w1 = clock w \<Longrightarrow> fst (validate_reload_verify (production sys sc cfg) w1) = Ok ()"
  shows "fst (apply_trusted_ca_keys e (production sys sc cfg) new_keys w) \<in> {Ok Applied, Ok NotModified}"
  using system.wp_apply_live [of "production sys sc cfg" sys sc e w new_keys t] assms
  by (simp add: wp_fst_snd)

theorem apply_succeeds_witness:
  "fst (apply_trusted_ca_keys host_env (production healthy SshdControlConfig_default OpsConfig_default)
          sample_keys (host [])) \<in> {Ok Applied, Ok NotModified}"
  by (rule apply_succeeds [OF _ _ sample_keys_parse]) (simp_all add: host_is_ready healthy_up)

text \<open>
  Applying is idempotent: on a host in order, a request that was applied is
  answered \<open>NotModified\<close> the second time, and no file changes.
\<close>

theorem apply_idempotent:
  assumes "fault e = (\<lambda>_. None)"
    and "host_ready e (production sys sc cfg) (components (trusted_ca_path cfg)) (fs w)"
    and "apply_trusted_ca_keys e (production sys sc cfg) new_keys w = (Ok a, w')"
  shows "wp (apply_trusted_ca_keys e (production sys sc cfg) new_keys)
     (\<lambda>r w''. r = Ok NotModified \<and> data (fs w'') = data (fs w')) w'"
proof -
  let ?h = "production sys sc cfg"
  from wpD [OF system.wp_apply_trusted_ca_keys [of ?h sys sc e new_keys w] assms(3)]
  obtain t where t: "TrustedCaKeys_parse new_keys = Inr t" by auto
  from wpD [OF system.wp_apply_ready [of ?h sys sc e w new_keys t, OF _ _ _ _ host_ready_stable [where h = "production sys sc cfg"]] assms(3)] assms(1,2) t
  show ?thesis by (intro system.wp_apply_again [of ?h sys sc e w' new_keys t, simplified]) auto
qed

theorem apply_idempotent_witness:
  "\<exists>a w'. apply_trusted_ca_keys host_env (production healthy SshdControlConfig_default OpsConfig_default)
           sample_keys (host []) = (Ok a, w')
     \<and> wp (apply_trusted_ca_keys host_env (production healthy SshdControlConfig_default OpsConfig_default) sample_keys)
          (\<lambda>r w''. r = Ok NotModified \<and> data (fs w'') = data (fs w')) w'"
proof -
  have "wp (apply_trusted_ca_keys host_env (production healthy SshdControlConfig_default OpsConfig_default) sample_keys)
     (\<lambda>r w'. r = Ok Applied \<or> r = Ok NotModified) (host [])"
    by (rule system.wp_apply_live [OF _ _ _ _ _ sample_keys_parse]) (simp_all add: host_is_ready healthy_up)
  then obtain a w' where
    "apply_trusted_ca_keys host_env (production healthy SshdControlConfig_default OpsConfig_default)
       sample_keys (host []) = (Ok a, w')" by (auto simp: wp_def split: prod.splits)
  with apply_idempotent [OF _ _ this] show ?thesis by (auto simp: host_is_ready)
qed

text \<open>
  A request that does not parse is refused with the parser's error before anything
  is touched: no call is made and the world is the same.
\<close>

theorem apply_rejects_malformed:
  assumes "TrustedCaKeys_parse new_keys = Inl x"
  shows "apply_trusted_ca_keys e h new_keys w = (Err x, w)"
  using assms by (simp add: apply_trusted_ca_keys_def act_simps)

theorem apply_rejects_malformed_witness:
  "apply_trusted_ca_keys host_env (production no_programs SshdControlConfig_default OpsConfig_default)
     (lit ''ssh-dss AAAA'') (host []) = (Err (InvalidTrustedCa DisallowedAlgorithm), host [])"
  by (rule apply_rejects_malformed) (simp add: ca_eval)

text \<open>
  The same crash and fault safety for \<open>install_sshd_dropin\<close>, with the rendered
  drop-in as the only content the managed drop-in can get.
\<close>

theorem install_crash_safe:
  "wp (install_sshd_dropin e (production sys sc cfg))
     (\<lambda>r w'. kept e (components (dropin_path cfg)) (as_bytes (render_dropin (trusted_ca_path cfg))) (fs w) (fs w')
        \<and> passed (kept e (components (dropin_path cfg)) (as_bytes (render_dropin (trusted_ca_path cfg))) (fs w)) w w') w"
  using system.wp_install_sshd_dropin [of "production sys sc cfg" sys sc e w]
  by (auto elim!: wp_weaken)

text \<open>
  C16 (functional). A success of \<open>install_sshd_dropin\<close> means that the main configuration
  includes the drop-in directory, and that the drop-in is a file of its own with exactly the
  rendered text (\<open>OutcomeOk\<close>), or already read so up to white space at its end
  (\<open>NotModified\<close>).
\<close>

theorem install_ok_sound:
  "wp (install_sshd_dropin e (production sys sc cfg))
     (\<lambda>r w'. case r of
        Ok a \<Rightarrow> include_seen e (production sys sc cfg) (fs w) (fs w')
          \<and> (a = OutcomeOk
               \<and> holds e (components (dropin_path cfg)) (as_bytes (render_dropin (trusted_ca_path cfg))) (fs w')
               \<and> no_link e (components (dropin_path cfg)) (fs w')
             \<or> a = NotModified
               \<and> reads_as e (components (dropin_path cfg)) (fs w') (trim_end (render_dropin (trusted_ca_path cfg))))
      | _ \<Rightarrow> True) w"
  using system.wp_install_sshd_dropin [of "production sys sc cfg" sys sc e w]
  by (auto elim!: wp_weaken split: ret.splits)

text \<open>
  C15 (functional). Rollback of the drop-in. On a host in order and with no failing call,
  installing the drop-in puts exactly the rendered text in place, or finds it there already and
  changes no file, or ends in an error and every file of the host, the drop-in included, has the
  bytes it had before.
\<close>

theorem install_all_or_nothing:
  assumes "fault e = (\<lambda>_. None)"
    and "host_ready e (production sys sc cfg) (components (dropin_path cfg)) (fs w)"
  shows "wp (install_sshd_dropin e (production sys sc cfg))
     (\<lambda>r w'. case r of
        Ok a \<Rightarrow>
          a = OutcomeOk
            \<and> holds e (components (dropin_path cfg)) (as_bytes (render_dropin (trusted_ca_path cfg))) (fs w')
          \<or> a = NotModified \<and> data (fs w') = data (fs w)
            \<and> reads_as e (components (dropin_path cfg)) (fs w') (trim_end (render_dropin (trusted_ca_path cfg)))
      | Err x \<Rightarrow> data (fs w') = data (fs w)
      | Abort _ \<Rightarrow> True) w"
  using system.wp_install_ready [of "production sys sc cfg" sys sc e w, OF _ _ _ host_ready_stable [where h = "production sys sc cfg"]] assms
  by (auto elim!: wp_weaken split: ret.splits)

theorem install_all_or_nothing_witness:
  "wp (install_sshd_dropin host_env (production no_programs SshdControlConfig_default OpsConfig_default))
     (\<lambda>r w'. case r of
        Ok a \<Rightarrow>
          a = OutcomeOk \<and> holds host_env (components (dropin_path OpsConfig_default))
              (as_bytes (render_dropin (trusted_ca_path OpsConfig_default))) (fs w')
          \<or> a = NotModified \<and> data (fs w') = data (fs (host []))
            \<and> reads_as host_env (components (dropin_path OpsConfig_default)) (fs w')
                (trim_end (render_dropin (trusted_ca_path OpsConfig_default)))
      | Err x \<Rightarrow> data (fs w') = data (fs (host []))
      | Abort _ \<Rightarrow> True) (host [])"
  by (rule install_all_or_nothing) (simp_all add: host_is_ready)

text \<open>The three commands, as they appear in the trace.\<close>

definition cmd_validate :: "sshd_control_config \<Rightarrow> event" where
  "cmd_validate sc = Executed (sshd_binary sc) [lit ''-t'']"


definition cmd_active :: "sshd_control_config \<Rightarrow> event" where
  "cmd_active sc = Executed (systemctl_binary sc) [lit ''is-active'', service_name sc]"

lemma wp_verify_commands:
  "wp (verify_state e (production sys sc cfg))
     (\<lambda>r w'. \<forall>a. r = Ok a \<longrightarrow> trace w' = trace w @ [cmd_validate sc, cmd_active sc]) w"
  unfolding verify_state_def Let_def
proof (rule wp_seqI [OF wp_check_ca_file], goal_cases)
  case (1 a w1)
  show ?case
  proof (rule wp_seqI [OF wp_check_dropin], goal_cases)
    case (1 a w2)
    with \<open>fs w1 = fs w \<and> _\<close> have w2: "trace w2 = trace w" by simp
    show ?case
      unfolding production_sel SystemSshdControl_def control.simps
        SystemSshdControl_validate_config_def SystemSshdControl_is_active_def
      by (rule wp_seqI [OF wp_run_command], rule wp_weaken [OF wp_run_command])
        (auto simp: w2 cmd_validate_def cmd_active_def)
  qed auto
qed auto

text \<open>
  C13 (safety). \<open>verify_state\<close> never changes the file system, and a success means: \<^verbatim>\<open>sshd -t\<close> and
  then the probe were run; the managed key file is no link, not writable by group or others,
  UTF-8 and a well-formed list of allowed keys, or a read finds nothing there; the drop-in is no
  link, not writable by group or others, and reads as the rendered text, or a read finds nothing
  there. A read finds nothing where there is no entry, and also where a symbolic link has no target.
\<close>

theorem verify_state_sound:
  "wp (verify_state e (production sys sc cfg))
     (\<lambda>r w'. fs w' = fs w \<and> passed (\<lambda>_. False) w w'
        \<and> (case r of
             Ok _ \<Rightarrow> ca_file_ok e (production sys sc cfg) (fs w) \<and> dropin_ok e (production sys sc cfg) (fs w)
               \<and> trace w' = trace w @ [cmd_validate sc, cmd_active sc]
           | _ \<Rightarrow> True)) w"
  by (rule wp_weaken [OF wp_conj [OF system.wp_verify_state [of "production sys sc cfg" sys sc e w] wp_verify_commands]])
    (auto split: ret.splits)

text \<open>
  C14 (error). The gap of \<open>verify_state\<close>: a symbolic link without a target at the key path is refused by
  \<open>ensure_not_symlink\<close>, but \<open>verify_state\<close> never asks. With such a link there, whoever owns it, and nothing
  found at the drop-in, it makes its two reads and answers what the two commands answer.
\<close>

theorem verify_state_dangling:
  assumes "fault e = (\<lambda>_. None)" and "dangling e (components (trusted_ca_path (config h))) (fs w)"
    and "nothing_at e (components (dropin_path (config h))) (fs w) \<or> dangling e (components (dropin_path (config h))) (fs w)"
  shows "verify_state e h w =
      seq (validate_config (sshd h)) (is_active (sshd h)) (count_call e (count_call e w))
   \<and> fst (ensure_not_symlink e (components (trusted_ca_path (config h))) w) = Err UnexpectedSymlink"
proof
  let ?p = "components (trusted_ca_path (config h))" and ?q = "components (dropin_path (config h))"
  have "lookup e (fs w) True ?p = Inl NotFound" "lookup e (fs w) True ?q = Inl NotFound"
    using assms(2,3) by (auto simp: not_found_iff)
  then have "read_optional e ?p w = (Ok None, count_call e w)"
    "read_optional_string e ?q (count_call e w) = (Ok None, count_call e (count_call e w))"
    using assms(1) by (simp_all add: read_optional_def read_optional_string_def fs_read_def read_at_def query_def act_simps)
  then show "verify_state e h w = seq (validate_config (sshd h)) (is_active (sshd h)) (count_call e (count_call e w))"
    by (simp add: verify_state_def Let_def act_simps)
  from assms(1,2) show "fst (ensure_not_symlink e ?p w) = Err UnexpectedSymlink"
    by (auto simp: dangling_def ensure_not_symlink_def is_symlink_def symlink_metadata_def query_def act_simps)
qed

definition stray_link :: inode where
  "stray_link = \<lparr>kind = Link (lit ''/nowhere''), perm = 0x1FF, owner = 1000, group = 1000\<rparr>"

theorem verify_state_dangling_witness:
  "fst (verify_state host_env (production healthy SshdControlConfig_default OpsConfig_default)
     ((host [])\<lparr>fs := (host_fs [])([lit ''etc'', lit ''ssh'', lit ''mayfly'', lit ''trusted_user_ca_keys''] \<mapsto> stray_link)\<rparr>))
   = Ok ()"
proof -
  let ?h = "production healthy SshdControlConfig_default OpsConfig_default"
  let ?w = "(host [])\<lparr>fs := (host_fs [])([lit ''etc'', lit ''ssh'', lit ''mayfly'', lit ''trusted_user_ca_keys''] \<mapsto> stray_link)\<rparr>"
  have d: "dangling host_env (components (trusted_ca_path (config ?h))) (fs ?w)"
    "nothing_at host_env (components (dropin_path (config ?h))) (fs ?w)"
    by (simp_all add: dangling_def nothing_at_def default_paths)
      (simp_all add: lookup_def resolve_def host_fs_def dir_node_def stray_link_def lit_def components_def starts_with_def
        List.map_filter_def piece_comp_def)
  from verify_state_dangling [of host_env ?h ?w] d
  have "verify_state host_env ?h ?w = seq (validate_config (sshd ?h)) (is_active (sshd ?h))
      (count_call host_env (count_call host_env ?w))" by simp
  then show ?thesis
    by (simp add: SystemSshdControl_def SystemSshdControl_validate_config_def SystemSshdControl_is_active_def run_def healthy_def
        await.simps act_simps read_child_stderr_def block_def SshdControlConfig_default_def DEFAULT_COMMAND_TIMEOUT_def)
qed

text \<open>
  What the helper may do to a host, over any number of requests: against \<open>f\<close>, every file of \<open>g\<close>
  has the bytes it had, or it is the managed key file with a text that parses as a list of
  allowed keys, or it is the managed drop-in with exactly the rendered text; no directory is
  gone and no symbolic link came or went.
\<close>

definition managed_at :: "env \<Rightarrow> ops_config \<Rightarrow> fs \<Rightarrow> loc \<Rightarrow> bool" where
  "managed_at e cfg g l \<longleftrightarrow>
     resolve e g False (components (trusted_ca_path cfg)) = Inr l
       \<and> (\<exists>k t. data g l = Some (as_bytes k) \<and> TrustedCaKeys_parse k = Inr t)
   \<or> resolve e g False (components (dropin_path cfg)) = Inr l
       \<and> data g l = Some (as_bytes (render_dropin (trusted_ca_path cfg)))"

definition only_managed :: "env \<Rightarrow> ops_config \<Rightarrow> fs \<Rightarrow> fs \<Rightarrow> bool" where
  "only_managed e cfg f g \<longleftrightarrow> fs_ext f g \<and>
     (\<forall>l d. data f l = Some d \<longrightarrow> data g l = Some d \<or> managed_at e cfg g l)"

definition managed_step :: "env \<Rightarrow> ops_config \<Rightarrow> world \<Rightarrow> world \<Rightarrow> bool" where
  "managed_step e cfg w w' \<longleftrightarrow>
     only_managed e cfg (fs w) (fs w') \<and> passed (only_managed e cfg (fs w)) w w'"

lemma only_managed_refl [simp]: "only_managed e cfg f f"
  by (simp add: only_managed_def)

lemma managed_at_data: "managed_at e cfg g l \<Longrightarrow> \<exists>d. data g l = Some d"
  by (auto simp: managed_at_def)

lemma managed_at_later: "managed_at e cfg g l \<Longrightarrow> fs_ext g h \<Longrightarrow> data h l = data g l \<Longrightarrow> managed_at e cfg h l"
  unfolding managed_at_def by (auto intro: resolve_ext)

lemma only_managed_trans:
  assumes fg: "only_managed e cfg f g" and gh: "only_managed e cfg g h"
  shows "only_managed e cfg f h"
proof -
  have ext: "fs_ext f h" "fs_ext g h" using assms by (auto simp: only_managed_def intro: fs_ext_trans)
  have "data h l = Some d \<or> managed_at e cfg h l" if d: "data f l = Some d" for l d
  proof (cases "data g l = Some d")
    case True
    with gh show ?thesis by (simp add: only_managed_def)
  next
    case False
    with fg d have m: "managed_at e cfg g l" by (auto simp: only_managed_def)
    then obtain d' where d': "data g l = Some d'" using managed_at_data by blast
    with gh have "data h l = Some d' \<or> managed_at e cfg h l" by (simp add: only_managed_def)
    with d' managed_at_later [OF m ext(2)] show ?thesis by auto
  qed
  with ext(1) show ?thesis by (simp add: only_managed_def)
qed

lemma managed_step_trans:
  assumes "managed_step e cfg w w'" and "managed_step e cfg w' w''"
  shows "managed_step e cfg w w''"
proof -
  have "passed (only_managed e cfg (fs w)) w' w''"
    using assms by (auto simp: managed_step_def elim: passed_mono intro: only_managed_trans)
  with assms show ?thesis unfolding managed_step_def by (blast intro: only_managed_trans passed_trans)
qed

interpretation mgd: step_relation "managed_step e cfg" for e cfg
  by unfold_locales (auto simp: managed_step_def [of e cfg w w for w] intro: managed_step_trans)

lemma same_only_managed: "same_data f g \<Longrightarrow> only_managed e cfg f g"
  by (simp add: only_managed_def same_data_def)

lemma kept_ca_only_managed:
  "kept e (components (trusted_ca_path cfg)) (as_bytes k) f g \<Longrightarrow> TrustedCaKeys_parse k = Inr t \<Longrightarrow>
     only_managed e cfg f g"
  unfolding kept_def only_managed_def managed_at_def by blast

lemma kept_dropin_only_managed:
  "kept e (components (dropin_path cfg)) (as_bytes (render_dropin (trusted_ca_path cfg))) f g \<Longrightarrow>
     only_managed e cfg f g"
  unfolding kept_def only_managed_def managed_at_def by blast

lemma managed_same: "always (inv_step (same_data f)) m \<Longrightarrow> fs w = f \<Longrightarrow> wp m (\<lambda>r w'. managed_step e cfg w w') w"
  by (rule wp_weaken [OF staysD [where I = "same_data f"]])
    (auto simp: managed_step_def intro: same_only_managed elim: passed_mono)

lemma managed_apply: "always (managed_step e cfg) (apply_trusted_ca_keys e (production sys sc cfg) k)"
proof (cases "TrustedCaKeys_parse k")
  case (Inl x)
  then show ?thesis by (simp add: apply_trusted_ca_keys_def always_def wp_simps managed_step_def)
next
  case (Inr t)
  show ?thesis
    unfolding always_def
    by (intro allI, rule wp_weaken [OF system.wp_apply_trusted_ca_keys [of "production sys sc cfg" sys sc e k]])
      (use Inr in \<open>auto simp: managed_step_def intro: kept_ca_only_managed elim: passed_mono\<close>)
qed

lemma managed_install: "always (managed_step e cfg) (install_sshd_dropin e (production sys sc cfg))"
  unfolding always_def
  by (intro allI, rule wp_weaken [OF system.wp_install_sshd_dropin [of "production sys sc cfg" sys sc e]])
    (auto simp: managed_step_def intro: kept_dropin_only_managed elim: passed_mono)

lemma managed_verify: "always (managed_step e cfg) (verify_state e (production sys sc cfg'))"
  unfolding always_def
  by (intro allI, rule wp_weaken [OF system.wp_verify_state [of "production sys sc cfg'" sys sc e]])
    (auto simp: managed_step_def elim: passed_mono)

lemma managed_directories: "always (managed_step e cfg) (ensure_directories e h)"
  unfolding always_def by (blast intro: managed_same same_ensure_directories)

lemma managed_dispatch: "always (managed_step e cfg) (dispatch e (production sys sc cfg) req)"
proof (cases "op req")
  case ApplyTrustedCaKeys
  then show ?thesis
    unfolding dispatch_def operation.case(4) by (simp, intro mgd.always_intros managed_apply)
qed (simp_all add: dispatch_def to_response_def mgd.always_intros managed_install managed_verify managed_directories)

lemma wp_dispatch_proper:
  "wp (dispatch e h req)
     (\<lambda>r w'. case r of Ok resp \<Rightarrow> proper messages resp | Err _ \<Rightarrow> False | Abort _ \<Rightarrow> True) w"
  by (cases "op req")
    (auto simp: dispatch_def to_response_def wp_return split: option.splits intro!: wp_respond)



end
