(* ===== verification/Peercred.thy ===== *)
theory Peercred
  imports Errors
begin

text \<open>
  \<^verbatim>\<open>src/peercred.rs\<close>: the kernel's credentials of a connecting peer and the policy that
  decides which user ids are served. Reading \<^verbatim>\<open>SO_PEERCRED\<close> is the operating system's part
  (through \<^verbatim>\<open>rustix\<close>): its result is an argument of \<open>read_peer_cred\<close> (the function \<^verbatim>\<open>peer_cred\<close>).
\<close>

record peer_cred =
  uid :: u32
  gid :: u32
  pid :: i32

record peer_policy =
  allowed_uids :: "u32 list"
  enforced :: bool

definition PeerPolicy_enforced :: "u32 list \<Rightarrow> peer_policy" where
  "PeerPolicy_enforced us =
     (let us' = (if 0 \<notin> set us then us @ [0] else us) in \<lparr>allowed_uids = us', enforced = True\<rparr>)"

definition PeerPolicy_unenforced :: peer_policy where
  "PeerPolicy_unenforced = \<lparr>allowed_uids = [], enforced = False\<rparr>"

definition PeerPolicy_default :: peer_policy where
  "PeerPolicy_default = \<lparr>allowed_uids = [], enforced = False\<rparr>"

definition is_enforced :: "peer_policy \<Rightarrow> bool" where
  "is_enforced p = enforced p"

definition authorize :: "peer_policy \<Rightarrow> peer_cred \<Rightarrow> error + unit" where
  "authorize p c =
     (if \<not> enforced p \<or> uid c \<in> set (allowed_uids p) then Inr () else Inl HelperUnauthenticated)"

record ucred =
  ucred_uid :: u32
  ucred_gid :: u32
  ucred_pid :: i32

definition read_peer_cred :: "io_kind + ucred \<Rightarrow> error + peer_cred" where
  "read_peer_cred sock =
     (case sock of Inl _ \<Rightarrow> Inl PeerCredUnavailable
      | Inr u \<Rightarrow> Inr \<lparr>uid = ucred_uid u, gid = ucred_gid u, pid = ucred_pid u\<rparr>)"

text \<open>
  The fallback for platforms without \<^verbatim>\<open>SO_PEERCRED\<close> behaves as a failed read of the credentials,
  so what is shown for unreadable credentials holds for it.
\<close>

definition peer_cred_fallback :: "error + peer_cred" where
  "peer_cred_fallback = Inl PeerCredUnavailable"

lemma peer_cred_fallback_unreadable: "read_peer_cred (Inl k) = peer_cred_fallback"
  by (simp add: read_peer_cred_def peer_cred_fallback_def)

text \<open>
  An enforced policy admits exactly the listed user ids and root, and says
  \<open>HelperUnauthenticated\<close> to everyone else, whatever their group and process.
\<close>

theorem authorize_enforced:
  "authorize (PeerPolicy_enforced us) c =
     (if uid c \<in> insert 0 (set us) then Inr () else Inl HelperUnauthenticated)"
  by (auto simp: authorize_def PeerPolicy_enforced_def Let_def)

lemma authorize_unenforced [simp]: "authorize PeerPolicy_unenforced c = Inr ()"
  by (simp add: authorize_def PeerPolicy_unenforced_def)

end
