(* ===== verification/Timed_Stream.thy ===== *)
theory Timed_Stream
  imports Protocol
begin

text \<open>
  The readers of \<open>Protocol\<close> on a socket, with the time their calls take. The read timeout of a
  socket is a limit of \<^verbatim>\<open>read(2)\<close>: a call that waits longer fails with \<^verbatim>\<open>EAGAIN\<close>, and the next call
  waits anew; without one a call can wait for ever. The functions of \<^verbatim>\<open>src/protocol.rs\<close> are generic in
  the reader: \<open>recv_frame\<close> is \<^verbatim>\<open>read_frame\<close> at the socket, and refines \<open>read_frame\<close>.
\<close>

section \<open>Sockets\<close>

text \<open>
  What the next calls return, each with the time in milliseconds it waits for that; \<open>None\<close> is an
  event that never comes. The state \<open>inbox\<close> is what the peer has still to send and the time spent.
\<close>

type_synonym timed_reader = "(nat option \<times> read_event) list"

record inbox =
  pending :: timed_reader
  spent :: nat

definition EAGAIN :: io_kind where "EAGAIN = OsError 11"

datatype wait = Arrives nat | GivesUp nat | Forever

definition wait_for :: "nat option \<Rightarrow> nat option \<Rightarrow> wait" where
  "wait_for lim d =
     (case lim of
        None \<Rightarrow> (case d of None \<Rightarrow> Forever | Some t \<Rightarrow> Arrives t)
      | Some m \<Rightarrow> (case d of None \<Rightarrow> GivesUp m | Some t \<Rightarrow> if t \<le> m then Arrives t else GivesUp m))"

text \<open>A call that took \<open>t\<close> and brought \<open>bs\<close>, before the rest of the loop.\<close>

definition after :: "nat \<Rightarrow> bytes \<Rightarrow> ('e, bytes) ret \<times> 'r \<times> nat \<Rightarrow> ('e, bytes) ret \<times> 'r \<times> nat" where
  "after t bs = (\<lambda>(x, r, u). (case x of Ok ys \<Rightarrow> Ok (bs @ ys) | Err k \<Rightarrow> Err k | Abort a \<Rightarrow> Abort a, r, t + u))"

fun timed_read_exact ::
  "nat option \<Rightarrow> nat \<Rightarrow> timed_reader \<Rightarrow> (io_kind, bytes) ret \<times> timed_reader \<times> nat" where
  "timed_read_exact lim n [] = (if n = 0 then Ok [] else Err UnexpectedEof, [], 0)"
| "timed_read_exact lim n ((d, e) # r) =
     (if n = 0 then (Ok [], (d, e) # r, 0)
      else case wait_for lim d of
             Forever \<Rightarrow> (Abort Hang, (d, e) # r, 0)
           | GivesUp m \<Rightarrow> (Err EAGAIN, (map_option (\<lambda>t. t - m) d, e) # r, m)
           | Arrives t \<Rightarrow>
               (case e of
                  Interrupted \<Rightarrow> after t [] (timed_read_exact lim n r)
                | ReadFail k \<Rightarrow> (Err k, r, t)
                | Data bs \<Rightarrow>
                    if bs = [] then (Err UnexpectedEof, r, t)
                    else if n < length bs then (Ok (take n bs), (Some 0, Data (drop n bs)) # r, t)
                    else after t bs (timed_read_exact lim (n - length bs) r)))"

definition recv_exact :: "nat option \<Rightarrow> nat \<Rightarrow> (inbox, io_kind, bytes) act" where
  "recv_exact lim n b =
     (case timed_read_exact lim n (pending b) of (x, r, t) \<Rightarrow> (x, \<lparr>pending = r, spent = spent b + t\<rparr>))"

definition recv_frame :: "nat option \<Rightarrow> (inbox, error, bytes) act" where
  "recv_frame lim =
     bind (map_err (\<lambda>_. HelperUnavailable) (recv_exact lim 4)) (\<lambda>len_buf.
     let len = unat (from_be_bytes len_buf) in
     if MAX_BODY_BYTES < len then throw HelperProtocol
     else map_err (\<lambda>_. HelperUnavailable) (recv_exact lim len))"

section \<open>Time does not change what is read\<close>

text \<open>What the calls of a socket with a read timeout return: the reader of \<open>Protocol\<close> behind it.\<close>

fun under_timeout :: "nat \<Rightarrow> timed_reader \<Rightarrow> reader" where
  "under_timeout m [] = []"
| "under_timeout m ((d, e) # r) =
     (case wait_for (Some m) d of Arrives t \<Rightarrow> e # under_timeout m r | _ \<Rightarrow> [ReadFail EAGAIN])"

definition ret_of :: "'e + 'a \<Rightarrow> ('e, 'a) ret" where
  "ret_of x = (case x of Inl k \<Rightarrow> Err k | Inr a \<Rightarrow> Ok a)"

lemma ret_of_simps [simp]: "ret_of (Inl k) = Err k" "ret_of (Inr a) = Ok a"
  by (simp_all add: ret_of_def)

lemma ret_of_iff [simp]:
  "ret_of x = Ok a \<longleftrightarrow> x = Inr a" "ret_of x = Err k \<longleftrightarrow> x = Inl k" "ret_of x \<noteq> Abort y"
  "Ok a = ret_of x \<longleftrightarrow> x = Inr a" "Err k = ret_of x \<longleftrightarrow> x = Inl k" "Abort y \<noteq> ret_of x"
  by (cases x; auto)+

lemma wait_for_limit: "wait_for (Some m) d \<noteq> Forever"
  "wait_for (Some m) d = Arrives t \<Longrightarrow> t \<le> m" "wait_for (Some m) d = GivesUp k \<Longrightarrow> k = m"
  by (auto simp: wait_for_def split: option.splits if_splits)

text \<open>Each call but an interrupted one brings a byte, or is the last.\<close>

definition uninterrupted :: "timed_reader \<Rightarrow> bool" where
  "uninterrupted r \<longleftrightarrow> (\<forall>(d, e) \<in> set r. e \<noteq> Interrupted)"

lemma uninterrupted_simps [simp]:
  "uninterrupted []" "uninterrupted ((d, e) # r) \<longleftrightarrow> e \<noteq> Interrupted \<and> uninterrupted r"
  by (simp_all add: uninterrupted_def)

lemma after_simps [simp]:
  "after t bs (Ok ys, r, u) = (Ok (bs @ ys), r, t + u)" "after t bs (Err k, r, u) = (Err k, r, t + u)"
  "after t bs (Abort a, r, u) = (Abort a, r, t + u)" "after t [] (x, r, u) = (x, r, t + u)"
  by (simp_all add: after_def split: ret.split)

lemma timed_read_exact_refines:
  "timed_read_exact (Some m) n r = (x, r', t) \<Longrightarrow>
     x = ret_of (fst (read_exact n (under_timeout m r)))
   \<and> (\<forall>bs. x = Ok bs \<longrightarrow> under_timeout m r' = snd (read_exact n (under_timeout m r)))"
proof (induction "Some m" n r arbitrary: x r' t rule: timed_read_exact.induct)
  case (2 n d e r)
  show ?case
  proof (cases "n = 0 \<or> \<not> (\<exists>t. wait_for (Some m) d = Arrives t)")
    case True
    with "2.prems" show ?thesis
      by (cases "wait_for (Some m) d") (auto simp: wait_for_limit split: if_splits)
  next
    case False
    then obtain t0 where n: "n \<noteq> 0" and a: "wait_for (Some m) d = Arrives t0" by blast
    show ?thesis
    proof (cases e)
      case (Data bs)
      obtain x1 r1 t1 where r1: "timed_read_exact (Some m) (n - length bs) r = (x1, r1, t1)" by (metis prod_cases3)
      show ?thesis
      proof (cases "bs = [] \<or> n < length bs")
        case True
        with "2.prems" n a Data show ?thesis by (auto simp: wait_for_def split: if_splits)
      next
        case False
        from "2.hyps"(1) [OF n a Data _ _ r1] False have
          "x1 = ret_of (fst (read_exact (n - length bs) (under_timeout m r)))"
          "\<forall>bs'. x1 = Ok bs' \<longrightarrow> under_timeout m r1 = snd (read_exact (n - length bs) (under_timeout m r))" by auto
        with "2.prems" n a Data False r1 show ?thesis
          by (cases "fst (read_exact (n - length bs) (under_timeout m r))") (auto split: prod.splits)
      qed
    next
      case Interrupted
      obtain x1 r1 t1 where r1: "timed_read_exact (Some m) n r = (x1, r1, t1)" by (metis prod_cases3)
      from "2.hyps"(2) [OF n a Interrupted r1] "2.prems" n a Interrupted r1 show ?thesis
        by auto
    qed (use "2.prems" n a in auto)
  qed
qed auto

lemma timed_read_exact_bound:
  "timed_read_exact (Some m) n r = (x, r', t) \<Longrightarrow> uninterrupted r \<Longrightarrow> t \<le> n * m \<and> uninterrupted r'"
proof (induction "Some m" n r arbitrary: x r' t rule: timed_read_exact.induct)
  case (2 n d e r)
  have one: "u \<le> n * m" if "n \<noteq> 0" "u \<le> m" for u using that by (cases n) simp_all
  have step: "u + v \<le> n * m" if "u \<le> m" "v \<le> (n - length bs) * m" "bs \<noteq> []" "\<not> n < length bs" for u v and bs :: bytes
  proof -
    from that(3,4) have "Suc (n - length bs) \<le> n" by (cases bs) simp_all
    then have "m + (n - length bs) * m \<le> n * m" using mult_le_mono1 [of "Suc (n - length bs)" n m] by simp
    with that(1,2) show ?thesis by linarith
  qed
  show ?case
  proof (cases "\<exists>t bs. n \<noteq> 0 \<and> wait_for (Some m) d = Arrives t \<and> e = Data bs \<and> bs \<noteq> [] \<and> \<not> n < length bs")
    case True
    then obtain t0 bs where a: "n \<noteq> 0" "wait_for (Some m) d = Arrives t0" "e = Data bs" "bs \<noteq> []" "\<not> n < length bs"
      by blast
    obtain x1 r1 t1 where r1: "timed_read_exact (Some m) (n - length bs) r = (x1, r1, t1)" by (metis prod_cases3)
    from "2.hyps"(1) [OF a r1] "2.prems" have "t1 \<le> (n - length bs) * m" "uninterrupted r1" by auto
    with "2.prems"(1) a r1 step [OF wait_for_limit(2) [OF a(2)] _ a(4,5)] show ?thesis by (cases x1) auto
  next
    case False
    with "2.prems" one show ?thesis
      by (auto split: wait.splits read_event.splits if_splits dest: wait_for_limit(2,3) simp: wait_for_limit)
  qed
qed (auto split: if_splits)

lemma wp_recv_exact:
  "wp (recv_exact (Some m) n) (\<lambda>x b'. x = ret_of (fst (read_exact n (under_timeout m (pending b))))
     \<and> (\<forall>bs. x = Ok bs \<longrightarrow> under_timeout m (pending b') = snd (read_exact n (under_timeout m (pending b))))
     \<and> (uninterrupted (pending b) \<longrightarrow> uninterrupted (pending b') \<and> spent b' \<le> spent b + n * m)) b"
  unfolding wp_def recv_exact_def
  using timed_read_exact_refines [of m n "pending b"] timed_read_exact_bound [of m n "pending b"]
  by (cases "timed_read_exact (Some m) n (pending b)") auto

lemma wp_recv_frame:
  "wp (recv_frame (Some m)) (\<lambda>x b'. x = ret_of (fst (read_frame (under_timeout m (pending b))))
     \<and> (uninterrupted (pending b) \<longrightarrow> spent b' \<le> spent b + (4 + MAX_BODY_BYTES) * m)) b"
  unfolding recv_frame_def wp_bind wp_map_err
proof (rule wp_weaken [OF wp_recv_exact], goal_cases)
  case (1 x b1)
  let ?u = "read_exact 4 (under_timeout m (pending b))"
  show ?case
  proof (cases x)
    case (Ok len_buf)
    define len where "len = unat (from_be_bytes len_buf)"
    from 1 Ok have u: "?u = (Inr len_buf, under_timeout m (pending b1))" by (cases ?u) auto
    from u have f: "fst (read_frame (under_timeout m (pending b))) =
        (if MAX_BODY_BYTES < len then Inl HelperProtocol
         else case fst (read_exact len (under_timeout m (pending b1))) of
                Inl _ \<Rightarrow> Inl HelperUnavailable | Inr body \<Rightarrow> Inr body)"
      by (simp add: read_frame_def Let_def len_def split: prod.split sum.split)
    have t: "spent b2 \<le> spent b + (4 + MAX_BODY_BYTES) * m"
      if "\<not> MAX_BODY_BYTES < len" "spent b2 \<le> spent b1 + len * m" "spent b1 \<le> spent b + 4 * m" for b2
    proof -
      from that(1) have "len * m \<le> MAX_BODY_BYTES * m" by simp
      with that(2,3) show ?thesis unfolding add_mult_distrib by linarith
    qed
    show ?thesis
    proof (cases "MAX_BODY_BYTES < len")
      case True
      with 1 Ok f show ?thesis by (auto simp: Let_def len_def [symmetric] wp_throw add_mult_distrib)
    next
      case False
      from Ok False show ?thesis
        unfolding f by (simp add: Let_def len_def [symmetric] wp_map_err, intro wp_weaken [OF wp_recv_exact])
          (use 1 t [OF False] in \<open>auto split: ret.split sum.split\<close>)
    qed
  next
    case (Err k)
    with 1 show ?thesis by (cases ?u) (auto simp: read_frame_def add_mult_distrib)
  qed (use 1 in simp)
qed

lemma read_frame_cap: "fst (read_frame r) = Inr body \<Longrightarrow> length body \<le> MAX_BODY_BYTES"
  by (auto simp: read_frame_parse parse_frame_def Let_def split: if_splits)

end
