(* ===== verification/Server.thy ===== *)
theory Server
  imports Ops_Safety Peercred Timed_Stream
begin

text \<open>
  \<^verbatim>\<open>src/server.rs\<close>: binding the control socket, the accept
  loop, and the handling of one connection: credentials, framing, authentication, dispatch,
  audit and reply.
\<close>

section \<open>State\<close>

definition SOCKET_MODE :: u32 where "SOCKET_MODE = 0x1B0"
definition ACCEPT_POLL :: nat where "ACCEPT_POLL = 100"
definition IO_TIMEOUT :: nat where "IO_TIMEOUT = 30000"

record helper_server =
  socket_path :: rstr
  server_token :: rstr
  ops :: helper_ops
  socket_gid :: "u32 option"
  policy :: peer_policy

definition HelperServer_new :: "rstr \<Rightarrow> rstr \<Rightarrow> helper_ops \<Rightarrow> helper_server" where
  "HelperServer_new p t h =
     \<lparr>socket_path = p, server_token = t, ops = h, socket_gid = None, policy = PeerPolicy_unenforced\<rparr>"

definition with_socket_group :: "u32 option \<Rightarrow> helper_server \<Rightarrow> helper_server" where
  "with_socket_group g srv = srv\<lparr>socket_gid := g\<rparr>"

definition with_peer_policy :: "peer_policy \<Rightarrow> helper_server \<Rightarrow> helper_server" where
  "with_peer_policy p srv = srv\<lparr>policy := p\<rparr>"

text \<open>
  One connection: what setting its two timeouts and reading its credentials returns, what its
  peer sends and when, the read timeout in force, what has been written to it, and the time in
  milliseconds that writing the reply takes (a write that the write timeout ends is one that fails).
\<close>

record connection =
  set_read_timeout :: "nat \<Rightarrow> io_kind + unit"
  set_write_timeout :: "nat \<Rightarrow> io_kind + unit"
  socket_peercred :: "io_kind + ucred"
  incoming :: timed_reader
  read_limit :: "nat option"
  outgoing :: writer
  drain_time :: nat

text \<open>The fields of one audit line.\<close>

record audit_entry =
  req_id :: u64
  audit_version :: "u32 option"
  audit_uid :: "u32 option"
  audit_gid :: "u32 option"
  audit_pid :: "i32 option"
  audit_op :: "operation option"
  audit_outcome :: outcome
  success :: bool
  audit_detail :: "rstr option"
  duration_ms :: nat

text \<open>
  The state of the server process: the host, the request counter, the audit lines written, and
  the connections, the current one first.
\<close>

record session =
  host_world :: world
  request_seq :: u64
  audit_log :: "audit_entry list"
  conns :: "connection list"

type_synonym 'a serving = "(session, error, 'a) act"

definition in_world :: "'a helper \<Rightarrow> 'a serving" where
  "in_world m s = (case m (host_world s) of (r, w) \<Rightarrow> (r, s\<lparr>host_world := w\<rparr>))"

definition conn_result :: "(connection \<Rightarrow> io_kind + unit) \<Rightarrow> unit serving" where
  "conn_result f s = (case f (hd (conns s)) of Inl k \<Rightarrow> (Err (Io k), s) | Inr a \<Rightarrow> (Ok (), s))"

text \<open>A stretch of time in which the host does nothing.\<close>

definition delayed :: "nat \<Rightarrow> world \<Rightarrow> world" where
  "delayed n w = w\<lparr>clock := clock w + n\<rparr>"

lemma delayed_sel [simp]:
  "fs (delayed n w) = fs w" "trace (delayed n w) = trace w" "tick (delayed n w) = tick w"
  "clock (delayed n w) = clock w + n"
  by (simp_all add: delayed_def)

definition set_conn :: "connection \<Rightarrow> session \<Rightarrow> session" where
  "set_conn c s = s\<lparr>conns := c # tl (conns s)\<rparr>"

section \<open>One connection\<close>

definition evaluate ::
  "env \<Rightarrow> helper_server \<Rightarrow> peer_cred option \<Rightarrow> request \<Rightarrow> response helper" where
  "evaluate e srv peer req =
     (if (case peer of Some cred \<Rightarrow> (case authorize (policy srv) cred of Inl _ \<Rightarrow> True | Inr _ \<Rightarrow> False)
          | None \<Rightarrow> False)
      then return (Response_failure Unhealthy (lit ''peer not authorized''))
      else if peer = None \<and> is_enforced (policy srv)
      then return (Response_failure Unhealthy (lit ''peer credentials unavailable''))
      else if protocol_version req \<noteq> PROTOCOL_VERSION
      then return (Response_failure Unhealthy (lit ''unsupported protocol version''))
      else if \<not> constant_time_eq (as_bytes (token req)) (as_bytes (server_token srv))
      then return (Response_failure Unhealthy (lit ''unauthenticated''))
      else dispatch e (ops srv) req)"

definition apply_read_timeout :: "nat \<Rightarrow> unit serving" where
  "apply_read_timeout d =
     seq (conn_result (\<lambda>c. set_read_timeout c d))
         (\<lambda>s. (Ok (), set_conn ((hd (conns s))\<lparr>read_limit := Some d\<rparr>) s))"

definition read_request :: "codec \<Rightarrow> nat option \<Rightarrow> (inbox, error, request) act" where
  "read_request j lim =
     bind (recv_frame lim) (\<lambda>body.
     if MAX_BODY_BYTES < length body then throw HelperProtocol else lift (decode_request j body))"

definition read_from_peer :: "codec \<Rightarrow> request serving" where
  "read_from_peer j s =
     (let c = hd (conns s) in
      case read_request j (read_limit c) \<lparr>pending = incoming c, spent = 0\<rparr> of
        (r, b) \<Rightarrow> (r, (set_conn (c\<lparr>incoming := pending b\<rparr>) s)\<lparr>host_world := delayed (spent b) (host_world s)\<rparr>))"

definition write_to_peer :: "bytes \<Rightarrow> unit serving" where
  "write_to_peer body s =
     (let c = hd (conns s) in
      case write_frame body (outgoing c) of
        (r, w) \<Rightarrow> (r, (set_conn (c\<lparr>outgoing := w\<rparr>) s)\<lparr>host_world := delayed (drain_time c) (host_world s)\<rparr>))"

definition audit ::
  "u64 \<Rightarrow> peer_cred option \<Rightarrow> operation option \<Rightarrow> u32 option \<Rightarrow> response \<Rightarrow> nat \<Rightarrow> unit serving" where
  "audit i peer o' v resp started s =
     (Ok (), s\<lparr>audit_log := audit_log s @
        [\<lparr>req_id = i, audit_version = v, audit_uid = map_option uid peer, audit_gid = map_option gid peer,
          audit_pid = map_option pid peer, audit_op = o', audit_outcome = outcome resp, success = ok resp,
          audit_detail = (if ok resp then None else detail resp),
          duration_ms = clock (host_world s) - started\<rparr>]\<rparr>)"

definition fetch_add_seq :: "u64 serving" where
  "fetch_add_seq s = (Ok (request_seq s), s\<lparr>request_seq := request_seq s + 1\<rparr>)"

definition reply_to :: "env \<Rightarrow> codec \<Rightarrow> helper_server \<Rightarrow> peer_cred option \<Rightarrow>
    (response \<times> operation option \<times> u32 option) serving" where
  "reply_to e j srv peer =
     handle (read_from_peer j)
       (\<lambda>req. bind (in_world (evaluate e srv peer req)) (\<lambda>resp.
              return (resp, Some (op req), Some (protocol_version req))))
       (\<lambda>_. return (Response_failure Unhealthy (lit ''protocol error''), None, None))"

definition peer_of :: "connection \<Rightarrow> peer_cred option" where
  "peer_of c = (case read_peer_cred (socket_peercred c) of Inl _ \<Rightarrow> None | Inr p \<Rightarrow> Some p)"

definition serve_connection ::
  "env \<Rightarrow> codec \<Rightarrow> helper_server \<Rightarrow> nat \<Rightarrow> peer_cred option \<Rightarrow> unit serving" where
  "serve_connection e j srv started peer =
     bind fetch_add_seq (\<lambda>i.
     seq (apply_read_timeout IO_TIMEOUT)
     (seq (conn_result (\<lambda>c. set_write_timeout c IO_TIMEOUT))
     (bind (reply_to e j srv peer) (\<lambda>(resp, o', v).
      seq (audit i peer o' v resp started)
      (bind (lift (encode_response j resp)) write_to_peer)))))"

definition handle_connection :: "env \<Rightarrow> codec \<Rightarrow> helper_server \<Rightarrow> unit serving" where
  "handle_connection e j srv s =
     serve_connection e j srv (clock (host_world s)) (peer_of (hd (conns s))) s"

section \<open>The socket\<close>

definition set_socket_mode :: "env \<Rightarrow> path \<Rightarrow> unit helper" where
  "set_socket_mode e p = map_err Io (fs_set_permissions e p SOCKET_MODE)"

definition bind_listener :: "env \<Rightarrow> helper_server \<Rightarrow> unit helper" where
  "bind_listener e srv =
     (let p = components (socket_path srv) in
      seq (case parent p of
             None \<Rightarrow> return ()
           | Some d \<Rightarrow>
               if d = [] then return ()
               else bind (path_exists e d) (\<lambda>b. if b then return () else map_err Io (create_dir_all e d)))
      (seq (handle (symlink_metadata e p)
              (\<lambda>i. if kind i = Socket then map_err Io (fs_remove_file e p) else throw InvalidPath)
              (\<lambda>k. if k = NotFound then return () else throw (Io k)))
      (seq (map_err Io (bind_socket e p))
      (seq (case socket_gid srv of None \<Rightarrow> return () | Some g \<Rightarrow> map_err Io (fs_chown_group e p g))
           (set_socket_mode e p)))))"

text \<open>A call on the listening socket that touches no file.\<close>

definition set_nonblocking :: "env \<Rightarrow> unit io" where
  "set_nonblocking e = query e (\<lambda>_. Inr ())"

section \<open>The accept loop\<close>

text \<open>
  What one turn of the loop finds: the stop flag, and when it is clear, what \<^verbatim>\<open>accept\<close> returns.
  A list without a set flag is a loop that is never told to stop.
\<close>

datatype accepted = Connected connection | WouldBlock | AcceptError io_kind

record poll =
  stop :: bool
  accept :: accepted

definition sleep :: "nat \<Rightarrow> unit serving" where
  "sleep n s = (Ok (), s\<lparr>host_world := delayed n (host_world s)\<rparr>)"

definition with_conn :: "connection \<Rightarrow> unit serving \<Rightarrow> unit serving" where
  "with_conn c m s = m (s\<lparr>conns := c # conns s\<rparr>)"

fun accept_loop :: "env \<Rightarrow> codec \<Rightarrow> helper_server \<Rightarrow> poll list \<Rightarrow> unit serving" where
  "accept_loop e j srv [] = (\<lambda>s. (Abort Hang, s))"
| "accept_loop e j srv (p # ps) =
     (if stop p then return ()
      else seq (case accept p of
                  Connected c \<Rightarrow> handle (with_conn c (handle_connection e j srv)) return (\<lambda>_. return ())
                | WouldBlock \<Rightarrow> sleep ACCEPT_POLL
                | AcceptError k \<Rightarrow> sleep ACCEPT_POLL)
               (accept_loop e j srv ps))"

definition server_run :: "env \<Rightarrow> codec \<Rightarrow> helper_server \<Rightarrow> poll list \<Rightarrow> unit serving" where
  "server_run e j srv polls =
     seq (in_world (bind_listener e srv))
     (seq (in_world (map_err Io (set_nonblocking e)))
     (seq (accept_loop e j srv polls)
          (in_world (handle (fs_remove_file e (components (socket_path srv))) return (\<lambda>_. return ())))))"


section \<open>Authentication\<close>

text \<open>The three factors together, and the first one that is missing.\<close>

definition peer_admitted :: "peer_policy \<Rightarrow> peer_cred option \<Rightarrow> bool" where
  "peer_admitted pol peer \<longleftrightarrow>
     \<not> enforced pol \<or> (case peer of None \<Rightarrow> False | Some c \<Rightarrow> uid c \<in> set (allowed_uids pol))"

definition authenticated :: "helper_server \<Rightarrow> peer_cred option \<Rightarrow> request \<Rightarrow> bool" where
  "authenticated srv peer req \<longleftrightarrow>
     peer_admitted (policy srv) peer \<and> protocol_version req = PROTOCOL_VERSION
     \<and> as_bytes (token req) = as_bytes (server_token srv)"

definition refusal :: "helper_server \<Rightarrow> peer_cred option \<Rightarrow> request \<Rightarrow> rstr" where
  "refusal srv peer req =
     (if \<not> peer_admitted (policy srv) peer
      then (if peer = None then lit ''peer credentials unavailable'' else lit ''peer not authorized'')
      else if protocol_version req \<noteq> PROTOCOL_VERSION then lit ''unsupported protocol version''
      else lit ''unauthenticated'')"

lemma evaluate_eq:
  "evaluate e srv peer req =
     (if authenticated srv peer req then dispatch e (ops srv) req
      else return (Response_failure Unhealthy (refusal srv peer req)))"
  by (auto simp: evaluate_def authenticated_def refusal_def peer_admitted_def authorize_def is_enforced_def
      split: option.splits)

text \<open>
  C2 (safety). No operation without all three factors. A request whose peer the policy does not
  admit, whose protocol version is not the supported one or whose token differs from the
  server's gets a fixed refusal that depends on the first missing factor only, and the host is
  not touched: no call, no command. Only an authenticated request is dispatched.
\<close>

theorem evaluate_gate:
  "evaluate e srv peer req w =
     (if authenticated srv peer req then dispatch e (ops srv) req w
      else (Ok (Response_failure Unhealthy (refusal srv peer req)), w))"
  by (simp add: evaluate_eq)

section \<open>What a connection leaves behind\<close>

text \<open>A relation on hosts, seen from the server's state.\<close>

definition on_host :: "(world \<Rightarrow> world \<Rightarrow> bool) \<Rightarrow> session \<Rightarrow> session \<Rightarrow> bool" where
  "on_host R s s' \<longleftrightarrow> R (host_world s) (host_world s')"

lemma on_host_step: "step_relation R \<Longrightarrow> step_relation (on_host R)"
  unfolding step_relation_def on_host_def by blast

lemma always_in_world: "always R m \<Longrightarrow> always (on_host R) (in_world m)"
  by (auto simp: always_def on_host_def in_world_def wp_def split: prod.splits)

lemma on_host_quiet:
  assumes "step_relation R" and "\<And>w n. R w (delayed n w)"
  shows "always (on_host R) (conn_result f)" "always (on_host R) (apply_read_timeout d)"
    "always (on_host R) (read_from_peer j)" "always (on_host R) (write_to_peer bs)"
    "always (on_host R) (audit i p o' v resp t)" "always (on_host R) fetch_add_seq" "always (on_host R) (sleep n)"
  using step_relation.R_refl [OF assms(1)] assms(2)
  by (auto simp: always_def on_host_def wp_def conn_result_def apply_read_timeout_def read_from_peer_def
      write_to_peer_def audit_def fetch_add_seq_def set_conn_def sleep_def act_simps Let_def split: prod.splits sum.splits)

lemma always_evaluate:
  "step_relation R \<Longrightarrow> always R (dispatch e (ops srv) req) \<Longrightarrow> always R (evaluate e srv peer req)"
  by (simp add: evaluate_eq step_relation.always_return)

lemma always_handle_connection:
  assumes R: "step_relation R" and d: "\<And>req. always R (dispatch e (ops srv) req)"
    and idle: "\<And>w n. R w (delayed n w)"
  shows "always (on_host R) (handle_connection e j srv)"
proof -
  note intros = step_relation.always_intros [OF on_host_step [OF R]] on_host_quiet [OF R idle]
  have r: "always (on_host R) (reply_to e j srv peer)" for peer
    unfolding reply_to_def by (intro intros always_in_world always_evaluate [OF R] d)
  have "always (on_host R) (serve_connection e j srv t peer)" for t peer
    unfolding serve_connection_def split_def by (intro intros r)
  then show ?thesis by (simp add: always_def wp_def handle_connection_def)
qed

lemma always_accept_loop:
  assumes R: "step_relation R" and d: "\<And>req. always R (dispatch e (ops srv) req)"
    and idle: "\<And>w n. R w (delayed n w)"
  shows "always (on_host R) (accept_loop e j srv ps)"
proof (induction ps)
  case Nil
  show ?case using step_relation.R_refl [OF R] by (simp add: always_def wp_def on_host_def)
next
  case (Cons p ps)
  note S = on_host_step [OF R]
  have w: "always (on_host R) (with_conn c (handle_connection e j srv))" for c
    using always_handle_connection [OF R d idle, of j]
    by (auto simp: always_def wp_def on_host_def with_conn_def split: prod.splits) force
  show ?case
    using Cons w on_host_quiet(7) [OF R idle] by (auto intro!: step_relation.always_intros [OF S] split: accepted.split)
qed


section \<open>The listening socket\<close>

lemma same_remove_socket: "f l = Some i \<Longrightarrow> kind i = Socket \<Longrightarrow> same_data f (f(l := None))"
  by (auto simp: same_data_def data_def plain_def dir_at_def link_at_def fun_eq_iff intro!: fs_ext_plain)

lemma same_new_socket: "f l = None \<Longrightarrow> kind i = Socket \<Longrightarrow> same_data f (f(l \<mapsto> i))"
  by (auto simp: same_data_def fun_eq_iff intro!: fs_ext_plain)

lemma same_remove_stale [stays_intros]:
  "stays (same_data f)
     (handle (symlink_metadata e p)
        (\<lambda>i. if kind i = Socket then map_err Io (fs_remove_file e p) else throw InvalidPath)
        (\<lambda>k. if k = NotFound then return () else throw (Io k)))"
  unfolding always_def inv_step_def
  by (auto simp: wp_simps symlink_metadata_def fs_remove_file_def map_sum_def lookup_Inr
      split: option.splits sum.splits intro!: passed_set_fs elim!: same_trans intro: same_remove_socket)

lemma same_bind_socket [stays_intros]: "stays (same_data f) (bind_socket e p)"
  unfolding bind_socket_def
  by (rule stays_change) (auto elim!: same_trans intro!: same_new_socket split: sum.splits if_splits)

lemma same_bind_listener: "stays (same_data f) (bind_listener e srv)"
  unfolding bind_listener_def set_socket_mode_def Let_def by (intro stays_intros)

definition listening :: "env \<Rightarrow> helper_server \<Rightarrow> fs \<Rightarrow> bool" where
  "listening e srv f \<longleftrightarrow> (\<exists>l i. resolve e f False (components (socket_path srv)) = Inr l \<and> f l = Some i
     \<and> kind i = Socket \<and> perm i = SOCKET_MODE \<and> (case socket_gid srv of None \<Rightarrow> True | Some g \<Rightarrow> group i = g))"

text \<open>The state between binding and the last permission change.\<close>

definition socket_at :: "env \<Rightarrow> path \<Rightarrow> fs \<Rightarrow> bool" where
  "socket_at e p f \<longleftrightarrow> (\<exists>l i. resolve e f False p = Inr l \<and> f l = Some i \<and> kind i = Socket)"

lemma socket_atI:
  assumes "resolve e f False p = Inr l" "f l = None" "kind i = Socket"
  shows "socket_at e p (f(l \<mapsto> i))"
proof -
  from assms have "resolve e (f(l \<mapsto> i)) False p = Inr l" by (simp add: resolve_plain_upd)
  with assms(3) show ?thesis by (auto simp: socket_at_def)
qed

lemma wp_new_socket:
  "wp (bind_socket e p) (\<lambda>r w'. case r of Ok _ \<Rightarrow> socket_at e p (fs w') | _ \<Rightarrow> True) w"
  by (auto simp: bind_socket_def wp_simps split: option.splits sum.splits intro!: socket_atI)

lemma socket_attr:
  assumes "resolve e f False p = Inr l" "f l = Some i" "kind i = Socket"
  shows "lookup e f True p = Inr (l, i)"
    and "kind j = Socket \<Longrightarrow> resolve e (f(l \<mapsto> j)) False p = Inr l"
proof -
  have pl: "plain f l" using assms by (simp add: plain_def dir_at_def link_at_def)
  then show "lookup e f True p = Inr (l, i)"
    using assms by (auto simp: lookup_Inr plain_def intro: resolve_follow)
  show "kind j = Socket \<Longrightarrow> resolve e (f(l \<mapsto> j)) False p = Inr l"
    using assms(1) pl by (simp add: resolve_plain_upd)
qed

lemma wp_chown_socket:
  assumes "resolve e (fs w) False p = Inr l" "fs w l = Some i" "kind i = Socket"
  shows "wp (fs_chown_group e p g) (\<lambda>r w'. case r of
     Ok _ \<Rightarrow> \<exists>i'. resolve e (fs w') False p = Inr l \<and> fs w' l = Some i' \<and> kind i' = Socket \<and> group i' = g
   | _ \<Rightarrow> True) w"
  using socket_attr [OF assms] assms(3)
  by (simp add: fs_chown_group_def wp_simps split: option.splits)

lemma wp_chmod_socket:
  assumes "resolve e (fs w) False p = Inr l" "fs w l = Some i" "kind i = Socket"
  shows "wp (set_socket_mode e p) (\<lambda>r w'. case r of
     Ok _ \<Rightarrow> \<exists>i'. resolve e (fs w') False p = Inr l \<and> fs w' l = Some i' \<and> kind i' = Socket
            \<and> group i' = group i \<and> perm i' = SOCKET_MODE
   | _ \<Rightarrow> True) w"
  using socket_attr [OF assms] assms(2,3)
  by (simp add: set_socket_mode_def fs_set_permissions_def set_mode_def wp_simps split: option.splits)

lemma wp_bind_tail:
  "wp (seq (map_err Io (bind_socket e (components (socket_path srv))))
      (seq (case socket_gid srv of None \<Rightarrow> return ()
            | Some g \<Rightarrow> map_err Io (fs_chown_group e (components (socket_path srv)) g))
           (set_socket_mode e (components (socket_path srv)))))
     (\<lambda>r w'. case r of Ok _ \<Rightarrow> listening e srv (fs w') | _ \<Rightarrow> True) w"
proof -
  let ?p = "components (socket_path srv)"
  have new: "wp (map_err Io (bind_socket e ?p)) (\<lambda>r w'. case r of Ok _ \<Rightarrow> socket_at e ?p (fs w') | _ \<Rightarrow> True) w"
    unfolding wp_map_err by (rule wp_weaken [OF wp_new_socket]) (auto split: ret.splits)
  show ?thesis
  proof (rule wp_seqI [OF new], goal_cases)
    case (1 a w3)
    then obtain l i where w3: "resolve e (fs w3) False ?p = Inr l" "fs w3 l = Some i" "kind i = Socket"
      by (auto simp: socket_at_def)
    show ?case
    proof (cases "socket_gid srv")
      case None
      with wp_chmod_socket [OF w3] show ?thesis
        by (auto simp: wp_seq wp_return listening_def elim!: wp_weaken split: ret.splits)
    next
      case (Some g)
      have "wp (map_err Io (fs_chown_group e ?p g)) (\<lambda>r w'. case r of
          Ok _ \<Rightarrow> \<exists>i'. resolve e (fs w') False ?p = Inr l \<and> fs w' l = Some i' \<and> kind i' = Socket \<and> group i' = g
        | _ \<Rightarrow> True) w3"
        unfolding wp_map_err by (rule wp_weaken [OF wp_chown_socket [OF w3]]) (auto split: ret.splits)
      then have "wp (seq (map_err Io (fs_chown_group e ?p g)) (set_socket_mode e ?p))
         (\<lambda>r w'. case r of Ok _ \<Rightarrow> listening e srv (fs w') | _ \<Rightarrow> True) w3"
      proof (rule wp_seqI, goal_cases)
        case (1 a w4)
        then obtain i' where "resolve e (fs w4) False ?p = Inr l" "fs w4 l = Some i'" "kind i' = Socket" "group i' = g"
          by auto
        from wp_chmod_socket [OF this(1-3)] this(4) Some show ?case
          by (auto simp: listening_def elim!: wp_weaken split: ret.splits)
      qed auto
      with Some show ?thesis by simp
    qed
  qed auto
qed

lemma wp_bind_listening:
  "wp (bind_listener e srv) (\<lambda>r w'. case r of Ok _ \<Rightarrow> listening e srv (fs w') | _ \<Rightarrow> True) w"
  unfolding bind_listener_def Let_def
  by (rule wp_seqI [OF wp_True], rule wp_seqI [OF wp_True], rule wp_bind_tail) simp_all

lemma wp_bind_listener:
  "wp (bind_listener e srv) (\<lambda>r w'. same_data (fs w) (fs w') \<and> passed (same_data (fs w)) w w'
     \<and> (case r of Ok _ \<Rightarrow> listening e srv (fs w') | _ \<Rightarrow> True)) w"
  by (rule wp_weaken [OF wp_conj [OF staysD [OF same_bind_listener same_refl] wp_bind_listening]]) auto


section \<open>A whole run\<close>

lemma wp_in_world: "wp (in_world m) Q s \<longleftrightarrow> wp m (\<lambda>r w. Q r (s\<lparr>host_world := w\<rparr>)) (host_world s)"
  by (simp add: wp_def in_world_def split: prod.splits)

text \<open>The server as the binary builds it.\<close>

definition daemon :: "rstr \<Rightarrow> rstr \<Rightarrow> u32 option \<Rightarrow> peer_policy \<Rightarrow> helper_ops \<Rightarrow> helper_server" where
  "daemon p t g pol h = with_peer_policy pol (with_socket_group g (HelperServer_new p t h))"

lemma daemon_sel [simp]:
  "ops (daemon p t g pol h) = h" "server_token (daemon p t g pol h) = t" "policy (daemon p t g pol h) = pol"
  "socket_path (daemon p t g pol h) = p" "socket_gid (daemon p t g pol h) = g"
  by (simp_all add: daemon_def with_peer_policy_def with_socket_group_def HelperServer_new_def)

lemma socket_removed_managed:
  assumes same: "same_data f f1" and lis: "listening e srv f1" and om: "only_managed e cfg f1 g"
    and rm: "lookup e g False (components (socket_path srv)) = Inr (l, i)" "kind i \<noteq> Directory"
  shows "only_managed e cfg f (g(l := None))"
proof -
  have ext: "fs_ext f1 g" using om by (simp add: only_managed_def)
  from lis obtain l1 i1 where i1: "resolve e f1 False (components (socket_path srv)) = Inr l1" "f1 l1 = Some i1" "kind i1 = Socket"
    by (auto simp: listening_def)
  with resolve_ext [OF i1(1) ext] rm(1) have l1: "f1 l = Some i1" "kind i1 = Socket" by (auto simp: lookup_Inr)
  have "link_at g l t \<longleftrightarrow> link_at f1 l t" for t using ext by (simp add: fs_ext_def)
  then have "plain g l"
    using l1 rm by (auto simp: plain_def dir_at_def link_at_def lookup_Inr)
  then have ext': "fs_ext g (g(l := None))" by (intro fs_ext_plain) simp_all
  have "data f1 l = None" using l1 by (simp add: data_def)
  with same have none: "data f l = None" by (simp add: same_data_def)
  have fg: "only_managed e cfg f g" using same_only_managed [OF same] om by (rule only_managed_trans)
  have "data (g(l := None)) k = Some d \<or> managed_at e cfg (g(l := None)) k" if "data f k = Some d" for k d
  proof -
    from that none have eq: "data (g(l := None)) k = data g k" by auto
    from fg that have "data g k = Some d \<or> managed_at e cfg g k" by (simp add: only_managed_def)
    then show ?thesis unfolding eq using managed_at_later [OF _ ext' eq] by blast
  qed
  with fg ext' show ?thesis by (auto simp: only_managed_def intro: fs_ext_trans)
qed

lemma wp_shutdown_managed:
  assumes "same_data f f1" "listening e srv f1" "only_managed e cfg f1 (fs w)"
  shows "wp (handle (fs_remove_file e (components (socket_path srv))) return (\<lambda>_. return ()))
     (\<lambda>r w'. only_managed e cfg f (fs w') \<and> passed (only_managed e cfg f) w w') w"
proof -
  have "only_managed e cfg f (fs w)"
    using same_only_managed [OF assms(1)] assms(3) by (rule only_managed_trans)
  then show ?thesis
    by (auto simp: fs_remove_file_def wp_simps split: option.splits sum.splits intro!: passed_set_fs
        intro: socket_removed_managed [OF assms])
qed

lemma managed_accept_loop:
  "always (on_host (managed_step e cfg)) (accept_loop e j (daemon p t g pol (production sys sc cfg)) ps)"
  by (rule always_accept_loop [OF mgd.step_relation_axioms]) (simp_all add: managed_dispatch, simp add: managed_step_def)

lemma managed_nonblocking: "always (managed_step e cfg) (map_err Io (set_nonblocking e))"
  unfolding set_nonblocking_def always_def
  by (simp add: wp_simps managed_step_def split: option.splits)

lemma wp_server_run_managed:
  "wp (server_run e j (daemon p t g pol (production sys sc cfg)) polls)
     (\<lambda>r s'. only_managed e cfg (fs (host_world s)) (fs (host_world s'))
        \<and> passed (only_managed e cfg (fs (host_world s))) (host_world s) (host_world s')) s"
  (is "wp _ (\<lambda>r s'. ?Q s') s")
proof -
  let ?srv = "daemon p t g pol (production sys sc cfg)" and ?f = "fs (host_world s)"
  have Q: "?Q s' \<longleftrightarrow> managed_step e cfg (host_world s) (host_world s')" for s' by (simp add: managed_step_def)
  have A: "wp (in_world (bind_listener e ?srv)) (\<lambda>r s1. managed_step e cfg (host_world s) (host_world s1)
      \<and> same_data ?f (fs (host_world s1)) \<and> (case r of Ok _ \<Rightarrow> listening e ?srv (fs (host_world s1)) | _ \<Rightarrow> True)) s"
    unfolding wp_in_world by (rule wp_weaken [OF wp_bind_listener])
      (auto simp: managed_step_def intro: same_only_managed elim: passed_mono split: ret.splits)
  have B: "wp (in_world (map_err Io (set_nonblocking e))) (\<lambda>r s2. managed_step e cfg (host_world s1) (host_world s2)) s1"
    "wp (accept_loop e j ?srv polls) (\<lambda>r s2. managed_step e cfg (host_world s1) (host_world s2)) s1" for s1
    using always_in_world [OF managed_nonblocking] managed_accept_loop by (simp_all add: always_def on_host_def)
  note tr = managed_step_trans
  show ?thesis
    unfolding server_run_def Q
  proof (rule wp_seqI [OF A], goal_cases)
    case (1 a s1)
    note s1 = this
    show ?case
    proof (rule wp_seqI [OF B(1)], goal_cases)
      case (1 a s2)
      note s2 = this
      show ?case
      proof (rule wp_seqI [OF B(2)], goal_cases)
        case (1 a s3)
        with s2 have s3: "managed_step e cfg (host_world s1) (host_world s3)" by (blast intro: tr)
        then have "only_managed e cfg (fs (host_world s1)) (fs (host_world s3))" by (simp add: managed_step_def)
        with s1 have fin: "wp (handle (fs_remove_file e (components (socket_path ?srv))) return (\<lambda>_. return ()))
           (\<lambda>r w'. only_managed e cfg ?f (fs w') \<and> passed (only_managed e cfg ?f) (host_world s3) w') (host_world s3)"
          by (intro wp_shutdown_managed) simp_all
        from s1 s3 have "passed (only_managed e cfg ?f) (host_world s) (host_world s3)"
          using tr [OF _ s3] by (auto simp: managed_step_def)
        then show ?case
          unfolding wp_in_world by (intro wp_weaken [OF fin]) (auto simp: managed_step_def intro: passed_trans)
      qed (use s1 s2 in \<open>blast intro: tr\<close>)+
    qed (use s1 in \<open>blast intro: tr\<close>)+
  qed simp_all
qed


lemma wp_server_run_ran:
  "wp (server_run e j (daemon p t g pol (production sys sc cfg)) polls)
     (\<lambda>r s'. ran (allow_list sc) (host_world s) (host_world s')) s"
proof -
  let ?srv = "daemon p t g pol (production sys sc cfg)" and ?R = "ran (allow_list sc)"
  note S = on_host_step [OF cmd.step_relation_axioms [of "allow_list sc"]]
  have "always ?R (bind_listener e ?srv)"
    unfolding bind_listener_def set_socket_mode_def Let_def by (intro stays_intros)
  moreover have "always ?R (map_err Io (set_nonblocking e))"
    unfolding set_nonblocking_def by (intro stays_intros)
  moreover have "always (on_host ?R) (accept_loop e j ?srv polls)"
    by (rule always_accept_loop [OF cmd.step_relation_axioms])
      (simp_all add: system.ran_dispatch, simp add: ran_def)
  moreover have "always ?R (handle (fs_remove_file e (components (socket_path ?srv))) return (\<lambda>_. return ()))"
    by (intro stays_intros)
  ultimately have "always (on_host ?R) (server_run e j ?srv polls)"
    unfolding server_run_def by (intro step_relation.always_intros [OF S] always_in_world)
  then show ?thesis by (simp add: always_def on_host_def)
qed

text \<open>
  C25 (functional). A successful \<open>bind_listener\<close> leaves a socket at the configured path, open to
  owner and group only and owned by the configured group; and whatever fails, no file content
  changes, no directory is lost and no symbolic link is followed away or replaced.
\<close>

theorem bind_listener_safe:
  "wp (bind_listener e srv)
     (\<lambda>r w'. same_data (fs w) (fs w') \<and> passed (same_data (fs w)) w w'
        \<and> (case r of Ok _ \<Rightarrow> listening e srv (fs w') | _ \<Rightarrow> True)) w"
  by (rule wp_bind_listener)

text \<open>
  When something that is not a socket is at the path, a link or a regular file for
  example, \<open>bind_listener\<close> refuses with \<open>InvalidPath\<close> and leaves everything as it is.
\<close>

theorem bind_listener_refuses:
  assumes "fault e = (\<lambda>_. None)"
    and "parent (components (socket_path srv)) = Some d" and "dir_ready e d (fs w)"
    and "lookup e (fs w) False (components (socket_path srv)) = Inr (l, i)" and "kind i \<noteq> Socket"
  shows "fst (bind_listener e srv w) = Err InvalidPath
     \<and> fs (snd (bind_listener e srv w)) = fs w \<and> trace (snd (bind_listener e srv w)) = trace w"
proof -
  from dir_readyD [OF assms(3)] obtain ld di where
    "lookup e (fs w) True d = Inr (ld, di)" by (auto simp: lookup_Inr dir_at_def split: option.splits)
  with assms have "wp (bind_listener e srv) (\<lambda>r w'. r = Err InvalidPath \<and> fs w' = fs w \<and> trace w' = trace w) w"
    by (cases "d = []") (simp_all add: bind_listener_def path_exists_def metadata_def symlink_metadata_def
        Let_def wp_simps)
  then show ?thesis by (simp add: wp_fst_snd)
qed

theorem bind_listener_refuses_witness:
  "fst (bind_listener host_env (HelperServer_new (lit ''/etc/ssh/sshd_config'') []
       (production no_programs SshdControlConfig_default OpsConfig_default)) (host [])) = Err InvalidPath"
proof -
  have "components (lit ''/etc/ssh/sshd_config'') =
      [RootDir, Normal (lit ''etc''), Normal (lit ''ssh''), Normal (lit ''sshd_config'')]"
    by (simp add: components_def lit_def starts_with_def List.map_filter_def piece_comp_def)
  then show ?thesis
    using bind_listener_refuses [of host_env "HelperServer_new (lit ''/etc/ssh/sshd_config'') []
          (production no_programs SshdControlConfig_default OpsConfig_default)"
        "[RootDir, Normal (lit ''etc''), Normal (lit ''ssh'')]" "host []"
        "[lit ''etc'', lit ''ssh'', lit ''sshd_config'']" "file_node []"]
    by (simp add: HelperServer_new_def parent_def dir_ready_def dir_at_def lookup_def resolve_def host_fs_def
        dir_node_def file_node_def lit_def)
qed


section \<open>One reply and one audit line\<close>

text \<open>Every text the helper can send, refusals included.\<close>

definition server_messages :: "rstr list" where
  "server_messages = messages @
     [lit ''peer not authorized'', lit ''peer credentials unavailable'', lit ''unsupported protocol version'',
      lit ''unauthenticated'', lit ''protocol error'']"

lemma refusal_message: "refusal srv peer req \<in> set server_messages"
  by (simp add: refusal_def server_messages_def)

lemma proper_more: "proper messages resp \<Longrightarrow> proper server_messages resp"
  by (auto simp: proper_def server_messages_def split: option.splits)

lemma wp_evaluate_proper:
  "wp (evaluate e srv peer req)
     (\<lambda>r w'. case r of Ok resp \<Rightarrow> proper server_messages resp | Err _ \<Rightarrow> False | Abort _ \<Rightarrow> True) w"
proof (cases "authenticated srv peer req")
  case True
  then show ?thesis
    by (simp add: evaluate_eq) (rule wp_weaken [OF wp_dispatch_proper], auto intro: proper_more split: ret.splits)
qed (simp add: evaluate_eq wp_return refusal_message)

text \<open>What the peer of a connection was sent of a response, and what the audit line says of it.\<close>

definition sent :: "codec \<Rightarrow> response \<Rightarrow> connection \<Rightarrow> connection \<Rightarrow> bool \<Rightarrow> bool" where
  "sent j resp c c' whole \<longleftrightarrow>
     (\<exists>out rest. sunk (outgoing c') = sunk (outgoing c) @ out
        \<and> (case encode_response j resp of Inl _ \<Rightarrow> out = [] \<and> \<not> whole
           | Inr body \<Rightarrow> frame body = out @ rest \<and> (whole \<longrightarrow> rest = [])))"

definition audited :: "audit_entry \<Rightarrow> u64 \<Rightarrow> peer_cred option \<Rightarrow> response \<Rightarrow> bool" where
  "audited en i peer resp \<longleftrightarrow> req_id en = i \<and> audit_uid en = map_option uid peer
     \<and> audit_outcome en = outcome resp \<and> success en = ok resp \<and> audit_detail en = detail resp"

lemma wp_fetch_add_seq: "wp fetch_add_seq Q s \<longleftrightarrow> Q (Ok (request_seq s)) (s\<lparr>request_seq := request_seq s + 1\<rparr>)"
  by (simp add: wp_def fetch_add_seq_def)

lemma wp_conn_result:
  "wp (conn_result f) Q s \<longleftrightarrow> (case f (hd (conns s)) of Inl k \<Rightarrow> Q (Err (Io k)) s | Inr _ \<Rightarrow> Q (Ok ()) s)"
  by (simp add: wp_def conn_result_def split: sum.splits)

lemma wp_apply_read_timeout:
  "wp (apply_read_timeout d) Q s \<longleftrightarrow> (case set_read_timeout (hd (conns s)) d of
     Inl k \<Rightarrow> Q (Err (Io k)) s | Inr _ \<Rightarrow> Q (Ok ()) (set_conn ((hd (conns s))\<lparr>read_limit := Some d\<rparr>) s))"
  by (simp add: wp_def apply_read_timeout_def conn_result_def act_simps split: sum.splits)

text \<open>
  The request of a connection: what its peer has sent, as the socket delivers it under the read
  timeout. Reading it never blocks for ever, and takes time that is bounded when no call is
  interrupted.
\<close>

definition received :: "codec \<Rightarrow> connection \<Rightarrow> error + request" where
  "received j c = (case fst (read_frame (under_timeout IO_TIMEOUT (incoming c))) of
     Inl x \<Rightarrow> Inl x | Inr body \<Rightarrow> decode_request j body)"

definition READ_BOUND :: nat where
  "READ_BOUND = (4 + MAX_BODY_BYTES) * IO_TIMEOUT"

lemma wp_read_request:
  "wp (read_request j (Some IO_TIMEOUT)) (\<lambda>r b. r = ret_of (received j c)
     \<and> (uninterrupted (incoming c) \<longrightarrow> spent b \<le> READ_BOUND)) \<lparr>pending = incoming c, spent = 0\<rparr>"
  unfolding read_request_def wp_bind
  by (rule wp_weaken [OF wp_recv_frame])
    (auto simp: received_def READ_BOUND_def wp_simps not_le [symmetric] read_frame_cap
      split: ret.split sum.split)

lemma wp_read_from_peer:
  assumes "conns s = c # cs" and "read_limit c = Some IO_TIMEOUT"
  shows "wp (read_from_peer j) (\<lambda>r s'. r = ret_of (received j c) \<and> (\<exists>n rest.
     s' = s\<lparr>host_world := delayed n (host_world s), conns := c\<lparr>incoming := rest\<rparr> # cs\<rparr>
     \<and> (uninterrupted (incoming c) \<longrightarrow> n \<le> READ_BOUND))) s"
proof -
  obtain r b where q: "read_request j (Some IO_TIMEOUT) \<lparr>pending = incoming c, spent = 0\<rparr> = (r, b)" by fastforce
  from wpD [OF wp_read_request q] have "r = ret_of (received j c)" "uninterrupted (incoming c) \<longrightarrow> spent b \<le> READ_BOUND"
    by auto
  moreover have "read_from_peer j s =
      (r, s\<lparr>host_world := delayed (spent b) (host_world s), conns := c\<lparr>incoming := pending b\<rparr> # cs\<rparr>)"
    by (simp add: read_from_peer_def assms q set_conn_def)
  ultimately show ?thesis unfolding wp_def by auto
qed

lemma wp_reply_to:
  "wp (reply_to e j srv peer) (\<lambda>r s'. request_seq s' = request_seq s \<and> audit_log s' = audit_log s
     \<and> tl (conns s') = tl (conns s) \<and> conns s' \<noteq> [] \<and> outgoing (hd (conns s')) = outgoing (hd (conns s))
     \<and> (case r of Ok (resp, o', v) \<Rightarrow> proper server_messages resp | Err _ \<Rightarrow> False | Abort _ \<Rightarrow> True)) s"
proof -
  have rd: "wp (read_from_peer j) (\<lambda>r s'. request_seq s' = request_seq s \<and> audit_log s' = audit_log s
     \<and> tl (conns s') = tl (conns s) \<and> conns s' \<noteq> [] \<and> outgoing (hd (conns s')) = outgoing (hd (conns s))) s"
    by (simp add: wp_def read_from_peer_def set_conn_def Let_def split: prod.splits)
  show ?thesis
    unfolding reply_to_def
  proof (rule wp_handleI [OF rd], goal_cases)
    case (1 req s1)
    show ?case
      unfolding wp_bind wp_in_world
      by (rule wp_weaken [OF wp_evaluate_proper]) (use 1 in \<open>auto simp: wp_return split: ret.splits\<close>)
  qed (auto simp: wp_return server_messages_def)
qed

lemma wp_write_to_peer:
  assumes "encode_response j resp = Inr body"
  shows "wp (write_to_peer body) (\<lambda>r s'. request_seq s' = request_seq s \<and> audit_log s' = audit_log s
     \<and> (\<exists>c'. conns s' = c' # tl (conns s) \<and> sent j resp (hd (conns s)) c' (r = Ok ())) \<and> (\<forall>x. r \<noteq> Abort x)) s"
proof -
  obtain r w where wf: "write_frame body (outgoing (hd (conns s))) = (r, w)" by fastforce
  from wpD [OF wp_write_frame wf] obtain out rest where
    o: "sunk w = sunk (outgoing (hd (conns s))) @ out" "frame body = out @ rest" "r = Ok () \<longrightarrow> rest = []"
    "\<forall>x. r \<noteq> Abort x" by (cases r) auto
  have "sent j resp (hd (conns s)) ((hd (conns s))\<lparr>outgoing := w\<rparr>) (r = Ok ())"
    unfolding sent_def by (intro exI [of _ out] exI [of _ rest]) (simp add: o assms)
  with o(4) show ?thesis by (auto simp: wp_def write_to_peer_def wf set_conn_def Let_def)
qed


text \<open>The end of a connection: the audit line, then as much of the response as the peer takes.\<close>

lemma wp_answer:
  assumes c: "conns s = c # cs" and pr: "proper server_messages resp"
  shows "wp (seq (audit i peer o' v resp t) (bind (lift (encode_response j resp)) write_to_peer))
     (\<lambda>r s'. request_seq s' = request_seq s \<and> (\<forall>x. r \<noteq> Abort x)
        \<and> (\<exists>c' en. conns s' = c' # cs \<and> audit_log s' = audit_log s @ [en] \<and> audited en i peer resp
             \<and> sent j resp c c' (r = Ok ()))) s"
    (is "wp _ ?Q s")
proof -
  define en where "en = \<lparr>req_id = i, audit_version = v, audit_uid = map_option uid peer,
    audit_gid = map_option gid peer, audit_pid = map_option pid peer, audit_op = o',
    audit_outcome = outcome resp, success = ok resp,
    audit_detail = (if ok resp then None else detail resp), duration_ms = clock (host_world s) - t\<rparr>"
  have en: "audited en i peer resp"
    using pr by (auto simp: audited_def en_def proper_def split: option.splits)
  let ?s1 = "s\<lparr>audit_log := audit_log s @ [en]\<rparr>"
  have au: "wp (audit i peer o' v resp t) (\<lambda>r s'. r = Ok () \<and> s' = ?s1) s" by (simp add: wp_def audit_def en_def)
  have "wp (bind (lift (encode_response j resp)) write_to_peer) ?Q ?s1"
  proof (cases "encode_response j resp")
    case (Inl x)
    then have "sent j resp c c False" by (simp add: sent_def)
    with Inl en c show ?thesis by (auto simp: wp_bind wp_throw)
  next
    case (Inr body)
    from wp_write_to_peer [OF this, of ?s1] have "wp (write_to_peer body) ?Q ?s1"
      by (rule wp_weaken) (use en c in auto)
    with Inr show ?thesis by (simp add: wp_bind wp_return)
  qed
  then show ?thesis by (intro wp_seqI [OF au]) simp_all
qed

lemma wp_serve_connection:
  assumes "conns s = c # cs"
  shows "wp (serve_connection e j srv t peer) (\<lambda>r s'. case r of
     Ok _ \<Rightarrow> request_seq s' = request_seq s + 1
       \<and> (\<exists>c' en resp. conns s' = c' # cs \<and> audit_log s' = audit_log s @ [en]
            \<and> audited en (request_seq s) peer resp \<and> proper server_messages resp \<and> sent j resp c c' True)
   | Err _ \<Rightarrow> request_seq s' = request_seq s + 1
       \<and> (\<exists>c'. conns s' = c' # cs
            \<and> (audit_log s' = audit_log s \<and> outgoing c' = outgoing c
              \<or> (\<exists>en resp. audit_log s' = audit_log s @ [en] \<and> audited en (request_seq s) peer resp
                   \<and> proper server_messages resp \<and> sent j resp c c' False)))
   | Abort _ \<Rightarrow> request_seq s' = request_seq s + 1 \<and> audit_log s' = audit_log s \<and> tl (conns s') = cs \<and> conns s' \<noteq> []) s"
    (is "wp _ ?Q s")
proof -
  let ?s1 = "s\<lparr>request_seq := request_seq s + 1, conns := c\<lparr>read_limit := Some IO_TIMEOUT\<rparr> # cs\<rparr>"
  have finish: "wp (seq (audit (request_seq s) peer o' v resp t) (bind (lift (encode_response j resp)) write_to_peer))
       ?Q s2"
    if s2: "request_seq s2 = request_seq s + 1" "audit_log s2 = audit_log s" "tl (conns s2) = cs" "conns s2 \<noteq> []"
      "outgoing (hd (conns s2)) = outgoing c" and pr: "proper server_messages resp" for s2 o' v resp
  proof -
    from s2(3,4) have "conns s2 = hd (conns s2) # cs" by (cases "conns s2") simp_all
    from wp_answer [OF this pr] show ?thesis
    proof (rule wp_weaken, goal_cases)
      case (1 r s')
      moreover have "sent j resp (hd (conns s2)) c' b \<longleftrightarrow> sent j resp c c' b" for c' b by (simp add: sent_def s2(5))
      ultimately show ?case using s2(1,2) pr by (cases r) fastforce+
    qed
  qed
  have "wp (bind (reply_to e j srv peer) (\<lambda>(resp, o', v).
      seq (audit (request_seq s) peer o' v resp t) (bind (lift (encode_response j resp)) write_to_peer))) ?Q ?s1"
  proof (rule wp_bindI [OF wp_reply_to], goal_cases)
    case (1 x s2)
    obtain resp o' v where "x = (resp, o', v)" by (cases x)
    with 1 assms show ?case by (simp add: finish)
  qed (use assms in auto)
  with assms show ?thesis
    by (cases "set_read_timeout c IO_TIMEOUT"; cases "set_write_timeout c IO_TIMEOUT")
      (simp_all add: serve_connection_def wp_bind wp_seq wp_fetch_add_seq wp_apply_read_timeout wp_conn_result
        set_conn_def)
qed


lemma wp_connection:
  "wp (with_conn c (handle_connection e j srv)) (\<lambda>r s'. request_seq s' = request_seq s + 1 \<and> (case r of
     Ok _ \<Rightarrow> (\<exists>c' en resp. conns s' = c' # conns s \<and> audit_log s' = audit_log s @ [en]
            \<and> audited en (request_seq s) (peer_of c) resp \<and> proper server_messages resp \<and> sent j resp c c' True)
   | Err _ \<Rightarrow> (\<exists>c'. conns s' = c' # conns s
            \<and> (audit_log s' = audit_log s \<and> outgoing c' = outgoing c
              \<or> (\<exists>en resp. audit_log s' = audit_log s @ [en] \<and> audited en (request_seq s) (peer_of c) resp
                   \<and> proper server_messages resp \<and> sent j resp c c' False)))
   | Abort _ \<Rightarrow> audit_log s' = audit_log s \<and> tl (conns s') = conns s \<and> conns s' \<noteq> [])) s"
proof -
  have "wp (handle_connection e j srv) Q s1 \<longleftrightarrow>
      wp (serve_connection e j srv (clock (host_world s1)) (peer_of (hd (conns s1)))) Q s1" for Q s1
    by (simp add: wp_def handle_connection_def)
  then show ?thesis
    using wp_serve_connection [of "s\<lparr>conns := c # conns s\<rparr>" c "conns s" e j srv "clock (host_world s)" "peer_of c"]
    by (simp add: wp_def with_conn_def split: prod.splits ret.splits)
qed

text \<open>
  C17 (functional). One connection, one reply, one audit line. A connection handled without
  error wrote exactly one whole frame with one well-formed response, and exactly one audit line
  that carries the connection's number and peer and the outcome of that same response. On an
  error at most a prefix of one frame went out, never without its audit line. Every connection
  takes the next number.
\<close>

theorem connection_one_reply:
  "wp (with_conn c (handle_connection e j srv)) (\<lambda>r s'. request_seq s' = request_seq s + 1 \<and> (case r of
     Ok _ \<Rightarrow> (\<exists>c' en resp. conns s' = c' # conns s \<and> audit_log s' = audit_log s @ [en]
            \<and> audited en (request_seq s) (peer_of c) resp \<and> proper server_messages resp \<and> sent j resp c c' True)
   | Err _ \<Rightarrow> (\<exists>c'. conns s' = c' # conns s
            \<and> (audit_log s' = audit_log s \<and> outgoing c' = outgoing c
              \<or> (\<exists>en resp. audit_log s' = audit_log s @ [en] \<and> audited en (request_seq s) (peer_of c) resp
                   \<and> proper server_messages resp \<and> sent j resp c c' False)))
   | Abort _ \<Rightarrow> audit_log s' = audit_log s)) s"
  by (rule wp_weaken [OF wp_connection]) (auto split: ret.splits)

section \<open>What a connection does\<close>

text \<open>
  One connection as seen from outside: the peer, what it asked for (\<open>None\<close> when nothing could be
  read), and the answer; and the audit line that describes it.
\<close>

type_synonym label = "peer_cred option \<times> request option \<times> response"

definition describes :: "audit_entry \<Rightarrow> label \<Rightarrow> bool" where
  "describes en l \<longleftrightarrow> (case l of (peer, req, resp) \<Rightarrow>
     audit_uid en = map_option uid peer \<and> audit_gid en = map_option gid peer \<and> audit_pid en = map_option pid peer
   \<and> audit_op en = map_option op req \<and> audit_version en = map_option protocol_version req
   \<and> audit_outcome en = outcome resp \<and> success en = ok resp
   \<and> audit_detail en = (if ok resp then None else detail resp))"

text \<open>Both timeouts can be set; otherwise the connection is closed unread.\<close>

definition armed :: "connection \<Rightarrow> bool" where
  "armed c \<longleftrightarrow> set_read_timeout c IO_TIMEOUT = Inr () \<and> set_write_timeout c IO_TIMEOUT = Inr ()"

text \<open>
  The audit line written in the world \<open>w\<close>, with the time from \<open>t\<close> to it, and at most \<open>m\<close>
  milliseconds after it for the reply.
\<close>

definition logged :: "session \<Rightarrow> nat \<Rightarrow> label \<Rightarrow> world \<Rightarrow> nat \<Rightarrow> session \<Rightarrow> bool" where
  "logged s t l w m s' \<longleftrightarrow> (\<exists>en. audit_log s' = audit_log s @ [en] \<and> describes en l \<and> duration_ms en = clock w - t)
     \<and> (\<exists>k \<le> m. host_world s' = delayed k w)"

lemma delayed_0 [simp]: "delayed 0 w = w"
  by (simp add: delayed_def)

lemma delayed_delayed [simp]: "delayed k (delayed n w) = delayed (n + k) w"
  by (simp add: delayed_def)

lemma logged_from [simp]:
  "logged (s\<lparr>host_world := w0\<rparr>) t l w m s' \<longleftrightarrow> logged s t l w m s'"
  "logged (s\<lparr>conns := cs\<rparr>) t l w m s' \<longleftrightarrow> logged s t l w m s'"
  by (simp_all add: logged_def)

lemma logged_world: "logged s t l w m s' \<Longrightarrow> \<exists>k \<le> m. host_world s' = delayed k w"
  by (simp add: logged_def)

lemma wp_audit_and_reply:
  "wp (seq (audit i peer (map_option op req) (map_option protocol_version req) resp t)
        (bind (lift (encode_response j resp)) write_to_peer))
     (\<lambda>r s'. (\<forall>x. r \<noteq> Abort x) \<and> logged s t (peer, req, resp) (host_world s) (drain_time (hd (conns s))) s') s"
proof -
  have "fst (write_frame body w) \<noteq> Abort x" for body w x
    using wp_write_frame [of body w] by (auto simp: wp_fst_snd split: ret.splits)
  then show ?thesis
    by (cases "encode_response j resp")
      (auto simp: wp_fst_snd act_simps audit_def write_to_peer_def set_conn_def describes_def logged_def split_def Let_def
        intro: exI [of _ 0])
qed

text \<open>The request is evaluated after the time it took to read it.\<close>

definition served :: "env \<Rightarrow> codec \<Rightarrow> helper_server \<Rightarrow> connection \<Rightarrow> nat \<Rightarrow>
    session \<Rightarrow> (error, 'a) ret \<Rightarrow> session \<Rightarrow> bool" where
  "served e j srv c n s r s' \<longleftrightarrow>
     (case received j c of
        Inl _ \<Rightarrow> (\<forall>x. r \<noteq> Abort x)
          \<and> logged s (clock (host_world s)) (peer_of c, None, Response_failure Unhealthy (lit ''protocol error''))
              (delayed n (host_world s)) (drain_time c) s'
      | Inr q \<Rightarrow>
          (case evaluate e srv (peer_of c) q (delayed n (host_world s)) of
             (Ok resp, w) \<Rightarrow> (\<forall>x. r \<noteq> Abort x)
               \<and> logged s (clock (host_world s)) (peer_of c, Some q, resp) w (drain_time c) s'
           | (Err _, w) \<Rightarrow> False
           | (Abort x, w) \<Rightarrow> host_world s' = w \<and> audit_log s' = audit_log s))"

lemma served_cong:
  assumes "peer_of c' = peer_of c" "received j c' = received j c" "drain_time c' = drain_time c" "host_world s1 = host_world s" "audit_log s1 = audit_log s"
  shows "served e j srv c' n s1 = served e j srv c n s"
  by (simp only: fun_eq_iff served_def logged_def assms simp_thms)

lemma wp_reply:
  assumes "conns s = c # cs" and "read_limit c = Some IO_TIMEOUT" and "t = clock (host_world s)"
  shows "wp (bind (reply_to e j srv (peer_of c)) (\<lambda>(resp, o', v).
      seq (audit i (peer_of c) o' v resp t) (bind (lift (encode_response j resp)) write_to_peer)))
    (\<lambda>r s'. \<exists>n. (uninterrupted (incoming c) \<longrightarrow> n \<le> READ_BOUND) \<and> served e j srv c n s r s') s"
  unfolding reply_to_def wp_bind wp_handle
proof (rule wp_weaken [OF wp_read_from_peer [OF assms(1,2)]], goal_cases)
  case (1 r s1)
  then obtain n rest where n: "uninterrupted (incoming c) \<longrightarrow> n \<le> READ_BOUND"
    and s1: "s1 = s\<lparr>host_world := delayed n (host_world s), conns := c\<lparr>incoming := rest\<rparr> # cs\<rparr>"
    and r: "r = ret_of (received j c)" by blast
  show ?case
  proof (cases "received j c")
    case (Inl x)
    with r show ?thesis
      by (simp add: wp_return, intro wp_weaken [OF wp_audit_and_reply [where req = None, simplified]])
        (use n s1 Inl assms(3) in \<open>auto simp: served_def intro!: exI [of _ n]\<close>)
  next
    case (Inr q)
    obtain x w where ev: "evaluate e srv (peer_of c) q (delayed n (host_world s)) = (x, w)" by fastforce
    have run: "wp (in_world (evaluate e srv (peer_of c) q)) Q s1 \<longleftrightarrow> Q x (s1\<lparr>host_world := w\<rparr>)" for Q
      using ev s1 by (intro wp_run) (simp add: in_world_def)
    show ?thesis
    proof (cases x)
      case (Ok resp)
      from r Inr Ok show ?thesis
        by (simp add: run wp_return, intro wp_weaken [OF wp_audit_and_reply [where req = "Some q", simplified]])
          (use n s1 Inr ev Ok assms(3) in
            \<open>auto simp: served_def intro!: exI [of _ n]\<close>)
    next
      case (Err k)
      with wpD [OF wp_evaluate_proper ev] show ?thesis by simp
    next
      case (Abort y)
      with r Inr show ?thesis
        by (simp add: run) (use n s1 Inr ev Abort in \<open>auto simp: served_def intro!: exI [of _ n]\<close>)
    qed
  qed
qed

lemma wp_connection_served:
  "wp (with_conn c (handle_connection e j srv)) (\<lambda>r s'.
     if armed c
     then \<exists>n. (uninterrupted (incoming c) \<longrightarrow> n \<le> READ_BOUND) \<and> served e j srv c n s r s'
     else (\<exists>x. r = Err x) \<and> audit_log s' = audit_log s \<and> host_world s' = host_world s) s"
proof -
  let ?c = "c\<lparr>read_limit := Some IO_TIMEOUT\<rparr>"
  let ?s = "s\<lparr>request_seq := request_seq s + 1, conns := ?c # conns s\<rparr>"
  have peer: "peer_of ?c = peer_of c" by (simp add: peer_of_def)
  have same: "served e j srv ?c n ?s = served e j srv c n s" for n
    by (rule served_cong) (simp_all add: peer received_def)
  have "wp (bind (reply_to e j srv (peer_of c)) (\<lambda>(resp, o', v).
      seq (audit (request_seq s) (peer_of c) o' v resp (clock (host_world s)))
        (bind (lift (encode_response j resp)) write_to_peer)))
    (\<lambda>r s'. \<exists>n. (uninterrupted (incoming c) \<longrightarrow> n \<le> READ_BOUND) \<and> served e j srv c n s r s') ?s"
    using wp_reply [of ?s ?c "conns s" "clock (host_world s)" e j srv "request_seq s"] by (simp add: same peer)
  then have "wp (serve_connection e j srv (clock (host_world s)) (peer_of c)) (\<lambda>r s'.
     if armed c
     then \<exists>n. (uninterrupted (incoming c) \<longrightarrow> n \<le> READ_BOUND) \<and> served e j srv c n s r s'
     else (\<exists>x. r = Err x) \<and> audit_log s' = audit_log s \<and> host_world s' = host_world s) (s\<lparr>conns := c # conns s\<rparr>)"
    by (cases "set_read_timeout c IO_TIMEOUT"; cases "set_write_timeout c IO_TIMEOUT")
      (simp_all add: serve_connection_def wp_bind wp_seq wp_fetch_add_seq wp_apply_read_timeout wp_conn_result
        armed_def set_conn_def)
  then show ?thesis by (simp add: wp_def with_conn_def handle_connection_def)
qed

section \<open>Refused connections\<close>

text \<open>The connection carries a request that passes all three checks.\<close>

definition conn_authenticated :: "codec \<Rightarrow> helper_server \<Rightarrow> connection \<Rightarrow> bool" where
  "conn_authenticated j srv c \<longleftrightarrow> (case received j c of
     Inl _ \<Rightarrow> False | Inr req \<Rightarrow> authenticated srv (peer_of c) req)"

lemma refused_connection_inert:
  assumes "\<not> conn_authenticated j srv c"
  shows "wp (with_conn c (handle_connection e j srv)) (\<lambda>r s'. (\<exists>n. host_world s' = delayed n (host_world s))
     \<and> (\<forall>x. r \<noteq> Abort x)) s"
proof (rule wp_weaken [OF wp_connection_served], goal_cases)
  case (1 r s')
  have "\<exists>n. host_world s = delayed n (host_world s)" by (rule exI [of _ 0]) (simp add: delayed_def)
  with 1 assms show ?case
    by (auto simp: conn_authenticated_def served_def evaluate_eq split: if_splits sum.splits dest!: logged_world)
qed

text \<open>
  C19 (error). The user id is looked at only after the request has been read, although the
  design note and the socket's description say that it is checked before the body is read. To a
  peer that the policy does not admit the helper still reads and decodes the whole request: a body that cannot be
  read is answered with \<^verbatim>\<open>protocol error\<close>, not with the refusal; a readable one is refused, and the
  operation it asked for is in the audit line. Nothing on the host changes but the time.
\<close>

theorem unadmitted_peer_is_read:
  assumes "armed c" and "\<not> peer_admitted (policy srv) (peer_of c)"
  shows "wp (with_conn c (handle_connection e j srv))
     (\<lambda>r s'. \<exists>n en. host_world s' = delayed n (host_world s) \<and> audit_log s' = audit_log s @ [en]
        \<and> \<not> success en \<and> audit_op en = (case received j c of Inl _ \<Rightarrow> None | Inr q \<Rightarrow> Some (op q))
        \<and> audit_detail en = Some (case received j c of
            Inl _ \<Rightarrow> lit ''protocol error''
          | Inr q \<Rightarrow> if peer_of c = None then lit ''peer credentials unavailable'' else lit ''peer not authorized'')) s"
proof (rule wp_weaken [OF wp_connection_served], goal_cases)
  case (1 r s')
  have "evaluate e srv (peer_of c) q w = (Ok (Response_failure Unhealthy
      (if peer_of c = None then lit ''peer credentials unavailable'' else lit ''peer not authorized'')), w)" for q w
    using assms(2) by (simp add: evaluate_eq authenticated_def refusal_def return_def)
  with 1 assms(1) show ?case
    by (cases "received j c") (fastforce simp: served_def logged_def describes_def Response_failure_def)+
qed

text \<open>
  C10 (safety). Peers that are refused cannot touch the host. However many connections are made,
  as long as none carries a request that passes the policy, the version and the token check,
  the accept loop leaves the file system as it is and starts no program.
\<close>

theorem refused_connections_inert:
  assumes "list_all (\<lambda>p. case accept p of Connected c \<Rightarrow> \<not> conn_authenticated j srv c | _ \<Rightarrow> True) polls"
  shows "wp (accept_loop e j srv polls)
     (\<lambda>r s'. fs (host_world s') = fs (host_world s) \<and> trace (host_world s') = trace (host_world s)) s"
  using assms
proof (induction polls arbitrary: s)
  case Nil
  then show ?case by (simp add: wp_def)
next
  case (Cons p ps)
  show ?case
  proof (cases "stop p")
    case True
    then show ?thesis by (simp add: wp_def)
  next
    case False
    have "wp (case accept p of
                  Connected c \<Rightarrow> handle (with_conn c (handle_connection e j srv)) return (\<lambda>_. return ())
                | WouldBlock \<Rightarrow> sleep ACCEPT_POLL
                | AcceptError k \<Rightarrow> sleep ACCEPT_POLL)
          (\<lambda>r s1. fs (host_world s1) = fs (host_world s) \<and> trace (host_world s1) = trace (host_world s)) s"
    proof (cases "accept p")
      case (Connected c)
      with Cons.prems have "\<not> conn_authenticated j srv c" by simp
      note inert = refused_connection_inert [OF this, of e s]
      from Connected show ?thesis
        by simp (rule wp_handleI [OF inert], auto simp: wp_return)
    qed (simp_all add: wp_def sleep_def)
    note turn = this
    have rest: "wp (accept_loop e j srv ps) (\<lambda>r s'. fs (host_world s') = fs (host_world s)
        \<and> trace (host_world s') = trace (host_world s)) s1"
      if "fs (host_world s1) = fs (host_world s) \<and> trace (host_world s1) = trace (host_world s)" for s1
      using Cons.IH [of s1] Cons.prems that by simp
    from False show ?thesis by simp (rule wp_seqI [OF turn], erule rest)
  qed
qed


text \<open>A peer that sends nothing usable, on a stream that takes everything.\<close>

definition stray_conn :: connection where
  "stray_conn = \<lparr>set_read_timeout = (\<lambda>_. Inr ()), set_write_timeout = (\<lambda>_. Inr ()),
     socket_peercred = Inr \<lparr>ucred_uid = 1000, ucred_gid = 1000, ucred_pid = 7\<rparr>,
     incoming = [(Some 5, Data [0, 0, 0, 1, 65])], read_limit = None, outgoing = \<lparr>sunk = [], room = None, flushes = True\<rparr>,
     drain_time = 3\<rparr>"

definition no_codec :: codec where
  "no_codec = \<lparr>to_vec_request = (\<lambda>_. None), from_slice_request = (\<lambda>_. None),
     to_vec_response = (\<lambda>_. Some []), from_slice_response = (\<lambda>_. None)\<rparr>"

definition fresh_session :: session where
  "fresh_session = \<lparr>host_world = host [], request_seq = 1, audit_log = [], conns = []\<rparr>"

lemma no_codec_refused: "\<not> conn_authenticated no_codec srv c"
  by (auto simp: conn_authenticated_def received_def decode_request_def or_protocol_def no_codec_def
      split: sum.splits)

theorem refused_connections_inert_witness:
  "wp (accept_loop host_env no_codec
         (daemon (lit ''/run/mayfly/helper.sock'') (lit ''secret'') None PeerPolicy_unenforced
            (production no_programs SshdControlConfig_default OpsConfig_default))
         [\<lparr>stop = False, accept = Connected stray_conn\<rparr>, \<lparr>stop = True, accept = WouldBlock\<rparr>])
     (\<lambda>r s'. fs (host_world s') = fs (host_world fresh_session)
         \<and> trace (host_world s') = trace (host_world fresh_session)) fresh_session"
  by (rule refused_connections_inert) (simp add: no_codec_refused)

theorem unadmitted_peer_is_read_witness:
  "wp (with_conn stray_conn (handle_connection host_env no_codec
         (daemon (lit ''/run/mayfly/helper.sock'') (lit ''secret'') None (PeerPolicy_enforced [998])
            (production no_programs SshdControlConfig_default OpsConfig_default))))
     (\<lambda>r s'. \<exists>n en. host_world s' = delayed n (host_world fresh_session) \<and> audit_log s' = [en] \<and> \<not> success en
        \<and> audit_op en = None \<and> audit_detail en = Some (lit ''protocol error'')) fresh_session"
proof -
  have "\<exists>x. received no_codec stray_conn = Inl x"
    by (auto simp: received_def decode_request_def or_protocol_def no_codec_def split: sum.splits)
  moreover have "armed stray_conn" by (simp add: armed_def stray_conn_def)
  ultimately show ?thesis
    by (intro wp_weaken [OF unadmitted_peer_is_read])
      (auto simp: peer_admitted_def peer_of_def read_peer_cred_def stray_conn_def PeerPolicy_enforced_def fresh_session_def)
qed

section \<open>The loop as a transition system\<close>

text \<open>
  The states the accept loop can be in: it starts in \<open>s0\<close>, serves one connection to its end, or
  naps. Connections do not overlap.
\<close>

inductive reachable :: "env \<Rightarrow> codec \<Rightarrow> helper_server \<Rightarrow> session \<Rightarrow> session \<Rightarrow> bool"
  for e j srv s0 where
  start: "reachable e j srv s0 s0"
| serve: "reachable e j srv s0 s \<Longrightarrow> with_conn c (handle_connection e j srv) s = (r, s') \<Longrightarrow>
    reachable e j srv s0 s'"
| nap: "reachable e j srv s0 s \<Longrightarrow> sleep n s = (r, s') \<Longrightarrow> reachable e j srv s0 s'"

inductive_cases reachable_cases: "reachable e j srv s0 s"

lemma accept_loop_reachable:
  "reachable e j srv s0 s \<Longrightarrow> wp (accept_loop e j srv polls) (\<lambda>r s'. reachable e j srv s0 s') s"
proof (induction polls arbitrary: s)
  case Nil
  then show ?case by (simp add: wp_def)
next
  case (Cons p ps)
  show ?case
  proof (cases "stop p")
    case True
    with Cons.prems show ?thesis by (simp add: wp_def)
  next
    case False
    have "wp (case accept p of
                  Connected c \<Rightarrow> handle (with_conn c (handle_connection e j srv)) return (\<lambda>_. return ())
                | WouldBlock \<Rightarrow> sleep ACCEPT_POLL
                | AcceptError k \<Rightarrow> sleep ACCEPT_POLL) (\<lambda>r s1. reachable e j srv s0 s1) s"
      using Cons.prems by (cases "accept p")
        (auto simp: wp_def handle_apply split: prod.splits ret.splits intro: reachable.serve reachable.nap)
    with False Cons.IH show ?thesis by (simp, intro wp_seqI) auto
  qed
qed

text \<open>
  Invariant: the number of connections counts the request numbers given out, and the audit
  lines carry an increasing selection of them, in order.
\<close>

definition numbered :: "session \<Rightarrow> session \<Rightarrow> bool" where
  "numbered s0 s \<longleftrightarrow> request_seq s = request_seq s0 + of_nat (length (conns s) - length (conns s0))
     \<and> length (conns s0) \<le> length (conns s)
     \<and> (\<exists>ks. sorted_wrt (<) ks \<and> (\<forall>k \<in> set ks. k < length (conns s) - length (conns s0))
          \<and> map req_id (audit_log s) = map req_id (audit_log s0) @ map (\<lambda>k. request_seq s0 + of_nat k) ks)"


lemma numbered_serve:
  assumes "numbered s0 s" and "with_conn c (handle_connection e j srv) s = (r, s')"
  shows "numbered s0 s'"
proof -
  let ?n = "length (conns s) - length (conns s0)"
  from wpD [OF wp_connection assms(2)] have one: "request_seq s' = request_seq s + 1"
    "length (conns s') = Suc (length (conns s))"
    "map req_id (audit_log s') = map req_id (audit_log s)
      \<or> map req_id (audit_log s') = map req_id (audit_log s) @ [request_seq s]"
    by (cases r; cases "conns s'"; auto simp: audited_def)+
  from assms(1) obtain ks where ks: "sorted_wrt (<) ks" "\<forall>k \<in> set ks. k < ?n"
    "map req_id (audit_log s) = map req_id (audit_log s0) @ map (\<lambda>k. request_seq s0 + of_nat k) ks"
    and s: "request_seq s = request_seq s0 + of_nat ?n" "length (conns s0) \<le> length (conns s)"
    by (auto simp: numbered_def)
  have n: "length (conns s') - length (conns s0) = Suc ?n" using one(2) s(2) by simp
  from one(3) have "\<exists>ks'. sorted_wrt (<) ks' \<and> (\<forall>k \<in> set ks'. k < Suc ?n)
      \<and> map req_id (audit_log s') = map req_id (audit_log s0) @ map (\<lambda>k. request_seq s0 + of_nat k) ks'"
  proof
    assume "map req_id (audit_log s') = map req_id (audit_log s)"
    with ks show ?thesis by (intro exI [of _ ks]) auto
  next
    assume "map req_id (audit_log s') = map req_id (audit_log s) @ [request_seq s]"
    with ks s(1) show ?thesis
      by (intro exI [of _ "ks @ [?n]"]) (auto simp: sorted_wrt_append)
  qed
  with one s show ?thesis unfolding numbered_def n by (simp add: algebra_simps)
qed

lemma reachable_numbered: "reachable e j srv s0 s \<Longrightarrow> numbered s0 s"
proof (induction rule: reachable.induct)
  case start
  show ?case by (auto simp: numbered_def intro: exI [of _ "[]"])
next
  case (serve s c r s')
  from numbered_serve [OF serve.IH serve.hyps(2)] show ?case .
next
  case (nap s n r s')
  then show ?case by (auto simp: sleep_def numbered_def)
qed

text \<open>
  C22 (invariant). In every state the accept loop reaches, the audit lines written since its
  start carry pairwise different request numbers, as long as no more than 2 to the 64
  connections were made, when the counter wraps.
\<close>

theorem audit_numbers_distinct:
  assumes "reachable e j srv s0 s" and "audit_log s0 = []" and "length (conns s) \<le> 2 ^ 64"
  shows "distinct (map req_id (audit_log s))"
proof -
  from reachable_numbered [OF assms(1)] assms(2) obtain ks where
    ks: "sorted_wrt (<) ks" "\<forall>k \<in> set ks. k < length (conns s)"
      "map req_id (audit_log s) = map (\<lambda>k. request_seq s0 + of_nat k) ks"
    by (force simp: numbered_def)
  have "inj_on (\<lambda>k. request_seq s0 + of_nat k) (set ks)"
  proof (rule inj_onI)
    fix x y
    assume "x \<in> set ks" "y \<in> set ks" "request_seq s0 + of_nat x = request_seq s0 + of_nat y"
    then have eq: "(of_nat x :: u64) = of_nat y" and lt: "x < 2 ^ 64" "y < 2 ^ 64" using ks(2) assms(3) by auto
    have u: "unat (of_nat k :: u64) = k mod 2 ^ 64" for k by (simp add: unat_of_nat)
    from eq have "unat (of_nat x :: u64) = unat (of_nat y :: u64)" by (rule arg_cong)
    with lt show "x = y" unfolding u by simp
  qed
  moreover have "distinct ks" using ks(1) by (simp add: strict_sorted_iff)
  ultimately show ?thesis by (simp add: ks(3) distinct_map)
qed


theorem audit_numbers_distinct_witness:
  "\<exists>s. reachable host_env no_codec
        (daemon [] [] None PeerPolicy_unenforced (production no_programs SshdControlConfig_default OpsConfig_default))
        fresh_session s
     \<and> length (conns s) = 1 \<and> distinct (map req_id (audit_log s))"
proof -
  let ?srv = "daemon [] [] None PeerPolicy_unenforced (production no_programs SshdControlConfig_default OpsConfig_default)"
  obtain r s where s: "with_conn stray_conn (handle_connection host_env no_codec ?srv) fresh_session = (r, s)" by fastforce
  then have re: "reachable host_env no_codec ?srv fresh_session s" by (rule reachable.serve [OF reachable.start])
  from wpD [OF wp_connection s] have "length (conns s) = 1"
    by (cases r; cases "conns s") (auto simp: fresh_session_def)
  with re audit_numbers_distinct [OF re] show ?thesis by (auto simp: fresh_session_def)
qed

end
