(* ===== verification/Host_Spec.thy ===== *)
theory Host_Spec
  imports Server
begin

text \<open>
  What the daemon does for its peers, with no word of system calls, frames, temporary files or
  rollback: a machine whose state is the two managed files and everything else, and whose steps are
  the requests with their answers. \<open>Host_Refinement\<close> shows that the server implements it. The
  machine takes its order from the code, not from the design note \<^verbatim>\<open>docs/ADR-0011\<close> and
  \<^verbatim>\<open>docs/helper-socket.json\<close>, which have the user id checked before the request is read: here every peer's request is
  read first (\<open>garbled\<close> applies to every peer), and the user id is part of the check that follows.
\<close>

section \<open>The abstract machine\<close>

record files =
  ca_file :: "bytes option"
  dropin_file :: "bytes option"
  other_files :: "loc \<Rightarrow> bytes option"

text \<open>What a verification may find in order: the keys parse, and the drop-in reads as rendered.\<close>

definition healthy_files :: "ops_config \<Rightarrow> files \<Rightarrow> bool" where
  "healthy_files cfg m \<longleftrightarrow>
     (case ca_file m of None \<Rightarrow> True
      | Some bs \<Rightarrow> (case from_utf8 bs of None \<Rightarrow> False | Some t \<Rightarrow> \<not> isl (TrustedCaKeys_parse t)))
   \<and> (case dropin_file m of None \<Rightarrow> True
      | Some bs \<Rightarrow> map_option trim_end (from_utf8 bs) = Some (trim_end (render_dropin (trusted_ca_path cfg))))"

text \<open>The five operations. A failure never changes a file.\<close>

inductive op_step :: "ops_config \<Rightarrow> files \<Rightarrow> request \<Rightarrow> response \<Rightarrow> files \<Rightarrow> bool" for cfg m req where
  ping: "op req = Ping \<Longrightarrow>
    op_step cfg m req \<lparr>ok = True, outcome = OutcomeOk, helper_version = Some CARGO_PKG_VERSION, detail = None\<rparr> m"
| directories: "op req = EnsureDirectories \<Longrightarrow> op_step cfg m req (Response_success OutcomeOk) m"
| healthy: "op req = VerifyState \<Longrightarrow> healthy_files cfg m \<Longrightarrow> op_step cfg m req (Response_success OutcomeOk) m"
| unhealthy: "op req = VerifyState \<Longrightarrow> op_step cfg m req (Response_failure Unhealthy (error_display x)) m"
| applied: "op req = ApplyTrustedCaKeys \<Longrightarrow> content req = Some t \<Longrightarrow> TrustedCaKeys_parse t = Inr ks \<Longrightarrow>
    op_step cfg m req (Response_success Applied) (m\<lparr>ca_file := Some (as_bytes t)\<rparr>)"
| current: "op req = ApplyTrustedCaKeys \<Longrightarrow> content req = Some t \<Longrightarrow> TrustedCaKeys_parse t = Inr ks \<Longrightarrow>
    ca_file m = Some (as_bytes t) \<Longrightarrow> op_step cfg m req (Response_success NotModified) m"
| malformed: "op req = ApplyTrustedCaKeys \<Longrightarrow> content req = Some t \<Longrightarrow> TrustedCaKeys_parse t = Inl x \<Longrightarrow>
    op_step cfg m req (Response_failure RolledBack (error_display x)) m"
| missing: "op req = ApplyTrustedCaKeys \<Longrightarrow> content req = None \<Longrightarrow>
    op_step cfg m req (Response_failure RolledBack (lit ''missing content'')) m"
| rolled_back: "op req = ApplyTrustedCaKeys \<Longrightarrow> x \<in> {SshdValidationFailed, SshdReloadFailed, SshdInactive} \<Longrightarrow>
    op_step cfg m req (Response_failure RolledBack (error_display x)) m"
| installed: "op req = InstallSshdDropin \<Longrightarrow>
    op_step cfg m req (Response_success OutcomeOk)
      (m\<lparr>dropin_file := Some (as_bytes (render_dropin (trusted_ca_path cfg)))\<rparr>)"
| unmodified: "op req = InstallSshdDropin \<Longrightarrow> dropin_file m = Some bs \<Longrightarrow> from_utf8 bs = Some t \<Longrightarrow>
    trim_end t = trim_end (render_dropin (trusted_ca_path cfg)) \<Longrightarrow>
    op_step cfg m req (Response_success NotModified) m"
| not_installed: "op req = InstallSshdDropin \<Longrightarrow>
    op_step cfg m req (Response_failure Unhealthy (error_display x)) m"

inductive_cases op_step_cases: "op_step cfg m req resp m'"

text \<open>
  One connection: the label is the peer, its request and the answer. A request that cannot be read
  is answered the same whoever sent it, even where the policy would refuse the peer.
\<close>

inductive spec_step :: "helper_server \<Rightarrow> ops_config \<Rightarrow> files \<Rightarrow> label \<Rightarrow> files \<Rightarrow> bool" for srv cfg m where
  garbled: "spec_step srv cfg m (peer, None, Response_failure Unhealthy (lit ''protocol error'')) m"
| refused: "\<not> authenticated srv peer req \<Longrightarrow>
    spec_step srv cfg m (peer, Some req, Response_failure Unhealthy (refusal srv peer req)) m"
| executed: "authenticated srv peer req \<Longrightarrow> op_step cfg m req resp m' \<Longrightarrow>
    spec_step srv cfg m (peer, Some req, resp) m'"

inductive_cases spec_step_cases: "spec_step srv cfg m l m'"

section \<open>Runs and simulations\<close>

inductive runs :: "('m \<Rightarrow> 'l \<Rightarrow> 'm \<Rightarrow> bool) \<Rightarrow> 'm \<Rightarrow> 'l list \<Rightarrow> 'm \<Rightarrow> bool" for step where
  rest: "runs step m [] m"
| more: "runs step m tr m' \<Longrightarrow> step m' l m'' \<Longrightarrow> runs step m (tr @ [l]) m''"

lemma runs_one: "step m l m' \<Longrightarrow> runs step m [l] m'"
  using runs.more [OF runs.rest, of step m l m'] by simp

lemma runs_append: "runs step m' tr' m'' \<Longrightarrow> runs step m tr m' \<Longrightarrow> runs step m (tr @ tr') m''"
proof (induction rule: runs.induct)
  case (more m1 tr1 m1' l m1'')
  then have "runs step m ((tr @ tr1) @ [l]) m1''" by (blast intro: runs.more)
  then show ?case by simp
qed simp

text \<open>A concrete step may show several labels of the abstract machine, or none.\<close>

inductive many :: "('s \<Rightarrow> 'l list \<Rightarrow> 's \<Rightarrow> bool) \<Rightarrow> 's \<Rightarrow> 'l list \<Rightarrow> 's \<Rightarrow> bool" for step where
  none: "many step s [] s"
| next_step: "many step s tr s' \<Longrightarrow> step s' ls s'' \<Longrightarrow> many step s (tr @ ls) s''"

locale simulation =
  fixes inv :: "'s \<Rightarrow> bool" and absf :: "'s \<Rightarrow> 'm"
    and step :: "'s \<Rightarrow> 'l list \<Rightarrow> 's \<Rightarrow> bool" and astep :: "'m \<Rightarrow> 'l \<Rightarrow> 'm \<Rightarrow> bool"
  assumes sim: "inv s \<Longrightarrow> step s ls s' \<Longrightarrow> inv s' \<and> runs astep (absf s) ls (absf s')"
begin

lemma sim_many: "many step s tr s' \<Longrightarrow> inv s \<Longrightarrow> inv s' \<and> runs astep (absf s) tr (absf s')"
proof (induction rule: many.induct)
  case (none s)
  then show ?case by (simp add: runs.rest)
next
  case (next_step s tr s' ls s'')
  with sim [of s' ls s''] show ?case by (blast intro: runs_append)
qed

end

section \<open>What the machine's history says about its files\<close>

text \<open>The keys of the last request that was answered with a success.\<close>

fun last_applied :: "bytes option \<Rightarrow> label list \<Rightarrow> bytes option" where
  "last_applied b [] = b"
| "last_applied b ((peer, req, resp) # tr) =
     last_applied (case req of
         Some q \<Rightarrow> if op q = ApplyTrustedCaKeys \<and> ok resp then map_option as_bytes (content q) else b
       | None \<Rightarrow> b) tr"

lemma last_applied_append: "last_applied b (tr @ tr') = last_applied (last_applied b tr) tr'"
  by (induction b tr rule: last_applied.induct) simp_all

lemma spec_step_ca_file: "spec_step srv cfg m l m' \<Longrightarrow> ca_file m' = last_applied (ca_file m) [l]"
  by (auto elim!: spec_step_cases op_step_cases simp: Response_success_def Response_failure_def)

lemma spec_step_others: "spec_step srv cfg m l m' \<Longrightarrow> other_files m' = other_files m"
  by (auto elim!: spec_step_cases op_step_cases)

lemma runs_ca_file: "runs (spec_step srv cfg) m tr m' \<Longrightarrow> ca_file m' = last_applied (ca_file m) tr"
  by (induction rule: runs.induct) (auto simp: last_applied_append dest: spec_step_ca_file)

lemma runs_others: "runs (spec_step srv cfg) m tr m' \<Longrightarrow> other_files m' = other_files m"
  by (induction rule: runs.induct) (auto dest: spec_step_others)

lemma spec_step_authenticated:
  "spec_step srv cfg m (peer, req, resp) m' \<Longrightarrow> ok resp \<Longrightarrow> \<exists>q. req = Some q \<and> authenticated srv peer q"
  by (auto elim!: spec_step_cases simp: Response_failure_def)

lemma runs_authenticated: "runs (spec_step srv cfg) m tr m' \<Longrightarrow>
    list_all (\<lambda>(peer, req, resp). ok resp \<longrightarrow> (\<exists>q. req = Some q \<and> authenticated srv peer q)) tr"
  by (induction rule: runs.induct) (auto dest: spec_step_authenticated)

end
