(* ===== verification/Shutdown.thy ===== *)
theory Shutdown
  imports Errors
begin

text \<open>
  \<^verbatim>\<open>src/shutdown.rs\<close>: the flag that signals set and the accept loop polls. The flag is shared: the
  handle and all its clones refer to one atomic of the process, so the atomics are a store and a
  handle is a reference into it. The \<^verbatim>\<open>signal_hook\<close> crate is a parameter in two parts: \<open>reg\<close>, what
  a registration returns, and \<open>hook\<close>, which atomics a signal sets, given the registrations made.
\<close>

section \<open>Definitions\<close>

record process =
  atomics :: "nat \<Rightarrow> bool"
  next_atomic :: nat
  registered :: "(nat \<times> nat) list"

definition process_start :: process where
  "process_start = \<lparr>atomics = (\<lambda>_. False), next_atomic = 0, registered = []\<rparr>"

record shutdown =
  flag_ref :: nat

definition Shutdown_new :: "process \<Rightarrow> shutdown \<times> process" where
  "Shutdown_new pr =
     (\<lparr>flag_ref = next_atomic pr\<rparr>,
      pr\<lparr>atomics := (atomics pr)(next_atomic pr := False), next_atomic := Suc (next_atomic pr)\<rparr>)"

definition is_requested :: "shutdown \<Rightarrow> process \<Rightarrow> bool" where
  "is_requested d pr = atomics pr (flag_ref d)"

definition request_shutdown :: "shutdown \<Rightarrow> process \<Rightarrow> process" where
  "request_shutdown d pr = pr\<lparr>atomics := (atomics pr)(flag_ref d := True)\<rparr>"

definition Shutdown_flag :: "shutdown \<Rightarrow> nat" where
  "Shutdown_flag d = flag_ref d"

definition Shutdown_clone :: "shutdown \<Rightarrow> shutdown" where
  "Shutdown_clone d = \<lparr>flag_ref = flag_ref d\<rparr>"

definition SIGTERM :: nat where "SIGTERM = 15"
definition SIGINT :: nat where "SIGINT = 2"

definition flag_register :: "(nat \<Rightarrow> io_kind + unit) \<Rightarrow> nat \<Rightarrow> nat \<Rightarrow> process \<Rightarrow> io_kind + process" where
  "flag_register reg sig r pr =
     (case reg sig of Inl k \<Rightarrow> Inl k | Inr _ \<Rightarrow> Inr (pr\<lparr>registered := registered pr @ [(sig, r)]\<rparr>))"

definition install_signal_handlers ::
  "(nat \<Rightarrow> io_kind + unit) \<Rightarrow> shutdown \<Rightarrow> process \<Rightarrow> (error + unit) \<times> process" where
  "install_signal_handlers reg d pr =
     (let flag = Shutdown_flag d in
      case flag_register reg SIGTERM flag pr of
        Inl k \<Rightarrow> (Inl (Io k), pr)
      | Inr pr1 \<Rightarrow>
          (case flag_register reg SIGINT flag pr1 of
             Inl k \<Rightarrow> (Inl (Io k), pr1)
           | Inr pr2 \<Rightarrow> (Inr (), pr2)))"

section \<open>Signals\<close>

type_synonym hook = "(nat \<times> nat) list \<Rightarrow> nat \<Rightarrow> nat list"

definition deliver :: "hook \<Rightarrow> nat \<Rightarrow> process \<Rightarrow> process" where
  "deliver hook sig pr = pr\<lparr>atomics := (\<lambda>r. atomics pr r \<or> r \<in> set (hook (registered pr) sig))\<rparr>"

text \<open>What the crate documents: a signal sets the flags registered for it.\<close>

definition sets_registered :: "hook \<Rightarrow> bool" where
  "sets_registered hook \<longleftrightarrow> (\<forall>rs sig. set (hook rs sig) = {r. (sig, r) \<in> set rs})"

definition registrations :: hook where
  "registrations rs sig = map snd (filter (\<lambda>(s, r). s = sig) rs)"

lemma sets_registered_registrations: "sets_registered registrations"
  by (force simp: sets_registered_def registrations_def)

lemma deliver_registered [simp]: "registered (deliver hook sig pr) = registered pr"
  by (simp add: deliver_def)

lemma delivers_registered [simp]: "registered (fold (deliver hook) sigs pr) = registered pr"
  by (induction sigs arbitrary: pr) simp_all

text \<open>A flag that is set stays set.\<close>

lemma delivers_keep: "atomics pr r \<Longrightarrow> atomics (fold (deliver hook) sigs pr) r"
  by (induction sigs arbitrary: pr) (simp_all add: deliver_def)

text \<open>The start of the process: after a successful installation exactly the two signals reach the flag.\<close>

lemma fresh_flag:
  assumes "Shutdown_new process_start = (d, pr)" and "install_signal_handlers reg d pr = (Inr (), pr')"
  shows "\<not> is_requested d pr'" and "(sig, flag_ref d) \<in> set (registered pr') \<longleftrightarrow> sig = SIGTERM \<or> sig = SIGINT"
  using assms
  by (auto simp: Shutdown_new_def process_start_def install_signal_handlers_def flag_register_def Shutdown_flag_def
      is_requested_def Let_def split: sum.splits)

text \<open>Exactly the signals that a registration names set the flag, whatever the order they arrive in.\<close>

lemma delivers_iff:
  assumes "sets_registered hook"
  shows "atomics (fold (deliver hook) sigs pr) r
    \<longleftrightarrow> atomics pr r \<or> (\<exists>sig \<in> set sigs. (sig, r) \<in> set (registered pr))"
proof (induction sigs arbitrary: pr)
  case (Cons s sigs)
  show ?case unfolding fold_simps comp_def Cons.IH using assms by (auto simp: deliver_def sets_registered_def)
qed simp

text \<open>
  The handle and its clones are one flag: after the start it is clear, a request
  through one of them is seen by the other, it is set from the first \<^verbatim>\<open>SIGTERM\<close> or \<^verbatim>\<open>SIGINT\<close> on and by
  no other signal, and no signal clears it.
\<close>

theorem shutdown_flag_shared:
  assumes "Shutdown_new process_start = (d, pr)" and "install_signal_handlers reg d pr = (Inr (), pr')"
    and "sets_registered hook"
  shows "\<not> is_requested d pr'
    \<and> is_requested (Shutdown_clone d) (request_shutdown d pr')
    \<and> is_requested d (request_shutdown (Shutdown_clone d) pr')
    \<and> (is_requested (Shutdown_clone d) (fold (deliver hook) sigs pr') \<longleftrightarrow> SIGTERM \<in> set sigs \<or> SIGINT \<in> set sigs)
    \<and> is_requested d (fold (deliver hook) sigs (request_shutdown d pr'))"
  using fresh_flag [OF assms(1,2)] delivers_keep
  by (auto simp: is_requested_def Shutdown_clone_def request_shutdown_def delivers_iff [OF assms(3)])

theorem shutdown_flag_shared_witness:
  "let (d, pr) = Shutdown_new process_start; pr' = snd (install_signal_handlers (\<lambda>_. Inr ()) d pr) in
     \<not> is_requested d (fold (deliver registrations) [1] pr')
     \<and> is_requested (Shutdown_clone d) (fold (deliver registrations) [1, SIGINT] pr')"
proof -
  let ?d = "fst (Shutdown_new process_start)" and ?pr = "snd (Shutdown_new process_start)"
  let ?pr' = "snd (install_signal_handlers (\<lambda>_. Inr ()) ?d ?pr)"
  have "install_signal_handlers (\<lambda>_. Inr ()) ?d ?pr = (Inr (), ?pr')"
    by (simp add: install_signal_handlers_def flag_register_def Let_def)
  note shutdown_flag_shared [OF prod.collapse [symmetric] this sets_registered_registrations]
  from this [of "[1]"] this [of "[1, SIGINT]"] show ?thesis
    by (simp add: SIGTERM_def SIGINT_def Shutdown_clone_def is_requested_def split_def Let_def)
qed

end
