(* ===== verification/Logging.thy ===== *)
theory Logging
  imports Errors
begin

text \<open>
  \<^verbatim>\<open>src/logging.rs\<close>: the installation of the global subscriber. The crates \<^verbatim>\<open>tracing\<close> and
  \<^verbatim>\<open>tracing_subscriber\<close> are parameters: what the filter of the environment is, how a filter is made
  from a level, and what installing a subscriber does to the process-wide registry.
\<close>

record 'f subscriber =
  env_filter :: 'f
  target_shown :: bool
  as_json :: bool

record ('f, 'g) tracing =
  try_from_default_env :: "'f option"
  EnvFilter_new :: "rstr \<Rightarrow> 'f"
  try_init :: "'f subscriber \<Rightarrow> 'g \<Rightarrow> (unit option) \<times> 'g"
  global_default :: "'g \<Rightarrow> 'f subscriber option"

definition init_subscriber :: "('f, 'g) tracing \<Rightarrow> 'f subscriber" where
  "init_subscriber tr =
     (let filter = (case try_from_default_env tr of Some f \<Rightarrow> f | None \<Rightarrow> EnvFilter_new tr (lit ''info'')) in
      \<lparr>env_filter = filter, target_shown = False, as_json = True\<rparr>)"

definition init :: "('f, 'g) tracing \<Rightarrow> 'g \<Rightarrow> bool \<times> 'g" where
  "init tr g = (case try_init tr (init_subscriber tr) g of (r, g') \<Rightarrow> (r \<noteq> None, g'))"

text \<open>What \<^verbatim>\<open>tracing\<close> documents: the global subscriber can be set once, and later attempts fail.\<close>

definition set_once :: "('f, 'g) tracing \<Rightarrow> bool" where
  "set_once tr \<longleftrightarrow> (\<forall>c g. case global_default tr g of
     None \<Rightarrow> fst (try_init tr c g) = Some () \<and> global_default tr (snd (try_init tr c g)) = Some c
   | Some c' \<Rightarrow> fst (try_init tr c g) = None \<and> global_default tr (snd (try_init tr c g)) = Some c')"

lemma init_first:
  assumes "set_once tr" and "global_default tr g = None"
  shows "fst (init tr g)" and "global_default tr (snd (init tr g)) = Some (init_subscriber tr)"
proof -
  from assms have "fst (try_init tr c g) = Some () \<and> global_default tr (snd (try_init tr c g)) = Some c" for c
    using assms(1) [unfolded set_once_def, rule_format, of c g] by simp
  then show "fst (init tr g)" "global_default tr (snd (init tr g)) = Some (init_subscriber tr)"
    by (simp_all add: init_def split_def)
qed

lemma init_later:
  assumes "set_once tr" and "global_default tr g = Some c"
  shows "\<not> fst (init tr g)" and "global_default tr (snd (init tr g)) = Some c"
proof -
  from assms have "fst (try_init tr d g) = None \<and> global_default tr (snd (try_init tr d g)) = Some c" for d
    using assms(1) [unfolded set_once_def, rule_format, of d g] by simp
  then show "\<not> fst (init tr g)" "global_default tr (snd (init tr g)) = Some c"
    by (simp_all add: init_def split_def)
qed

text \<open>
  The first call installs the JSON subscriber with the filter of the environment, or \<^verbatim>\<open>info\<close>, and
  says so; every later call says that it did not, and the first subscriber stays.
\<close>

lemma init_idempotent:
  assumes "set_once tr" and "global_default tr g = None"
  shows "fst (init tr g)"
    and "global_default tr (((snd \<circ> init tr) ^^ Suc n) g) = Some (init_subscriber tr)"
    and "\<not> fst (init tr (((snd \<circ> init tr) ^^ Suc n) g))"
proof -
  show "fst (init tr g)" by (rule init_first(1) [OF assms])
  show "global_default tr (((snd \<circ> init tr) ^^ Suc n) g) = Some (init_subscriber tr)"
    by (induction n) (simp_all add: init_first(2) [OF assms] init_later(2) [OF assms(1)])
  then show "\<not> fst (init tr (((snd \<circ> init tr) ^^ Suc n) g))" by (rule init_later(1) [OF assms(1)])
qed

text \<open>A registry of this kind.\<close>

definition one_slot :: "(rstr, rstr subscriber option) tracing" where
  "one_slot = \<lparr>try_from_default_env = None, EnvFilter_new = id,
     try_init = (\<lambda>c g. case g of None \<Rightarrow> (Some (), Some c) | Some _ \<Rightarrow> (None, g)), global_default = id\<rparr>"

lemma set_once_one_slot: "set_once one_slot"
  by (simp add: set_once_def one_slot_def split: option.splits)

end
