(* ===== verification/Helper_Bin.thy ===== *)
theory Helper_Bin
  imports Server Shutdown Logging
begin

text \<open>
  \<^verbatim>\<open>src/bin/mayfly-helper.rs\<close> and \<^verbatim>\<open>src/platform.rs\<close>: reading the environment, checking the
  process and the token file, building the server, installing the signal handlers and running
  to an exit code. The environment is a map from names to bytes. A run is given by what each
  turn of the accept loop finds: the signals that arrived since the turn before, and who connects.
\<close>

section \<open>Environment\<close>

definition DEFAULT_SOCKET_PATH :: rstr where "DEFAULT_SOCKET_PATH = lit ''/run/mayfly/helper.sock''"
definition DEFAULT_TOKEN_PATH :: rstr where "DEFAULT_TOKEN_PATH = lit ''/etc/mayfly-agent/helper.token''"
definition MIN_TOKEN_LEN :: nat where "MIN_TOKEN_LEN = 32"

type_synonym vars = "rstr \<Rightarrow> bytes option"

text \<open>\<^verbatim>\<open>std::env::var\<close> fails on a value that is not UTF-8 as it does on a missing one.\<close>

definition env_var :: "vars \<Rightarrow> rstr \<Rightarrow> rstr option" where
  "env_var vars name = Option.bind (vars name) from_utf8"

definition bin_socket_path :: "vars \<Rightarrow> rstr" where
  "bin_socket_path vars =
     (case env_var vars (lit ''MAYFLY_HELPER_SOCKET_PATH'') of None \<Rightarrow> DEFAULT_SOCKET_PATH | Some p \<Rightarrow> p)"

definition bin_token_path :: "vars \<Rightarrow> rstr" where
  "bin_token_path vars =
     (case env_var vars (lit ''MAYFLY_HELPER_TOKEN_PATH'') of None \<Rightarrow> DEFAULT_TOKEN_PATH | Some p \<Rightarrow> p)"

definition bin_socket_gid :: "vars \<Rightarrow> u32 option" where
  "bin_socket_gid vars =
     map_option of_nat (Option.bind (env_var vars (lit ''MAYFLY_HELPER_SOCKET_GID'')) (\<lambda>v. parse_unsigned 32 (trim v)))"

definition bin_peer_policy :: "vars \<Rightarrow> peer_policy" where
  "bin_peer_policy vars =
     (case Option.bind (env_var vars (lit ''MAYFLY_HELPER_ALLOWED_UID'')) (\<lambda>v. parse_unsigned 32 (trim v)) of
        Some n \<Rightarrow> PeerPolicy_enforced [of_nat n]
      | None \<Rightarrow> PeerPolicy_unenforced)"

section \<open>Checks at the start\<close>

definition effective_uid :: "env \<Rightarrow> u32" where
  "effective_uid e = euid e"

definition validate_root :: "env \<Rightarrow> unit helper" where
  "validate_root e = (if effective_uid e = 0 then return () else throw NotRoot)"

definition fs_read_to_string :: "env \<Rightarrow> path \<Rightarrow> rstr io" where
  "fs_read_to_string e p =
     bind (fs_read e p) (\<lambda>bs. case from_utf8 bs of None \<Rightarrow> throw InvalidData | Some t \<Rightarrow> return t)"

definition load_token :: "vars \<Rightarrow> env \<Rightarrow> rstr helper" where
  "load_token vars e =
     (let p = components (bin_token_path vars) in
      seq (ensure_not_symlink e p)
      (seq (ensure_owned_by_root e p)
      (seq (validate_mode_at_most e p 0x1A0)
      (bind (map_err Io (fs_read_to_string e p)) (\<lambda>raw.
       let tok = trim raw in
       if tok = [] then throw HelperUnauthenticated
       else if str_len tok < MIN_TOKEN_LEN then throw HelperUnauthenticated
       else return tok)))))"

section \<open>The program\<close>

definition bin_server :: "vars \<Rightarrow> system \<Rightarrow> rstr \<Rightarrow> helper_server" where
  "bin_server vars sys tok =
     with_peer_policy (bin_peer_policy vars)
       (with_socket_group (bin_socket_gid vars)
         (HelperServer_new (bin_socket_path vars) tok
           (HelperOps_new (OpsConfig_from_env (env_var vars))
             (SystemSshdControl sys (SshdControlConfig_from_env (env_var vars))))))"

record turn =
  signals :: "nat list"
  arrival :: accepted

text \<open>The polls of the loop: at each turn it loads the flag the signals set.\<close>

primrec watch :: "hook \<Rightarrow> nat \<Rightarrow> process \<Rightarrow> turn list \<Rightarrow> poll list" where
  "watch hook r pr [] = []"
| "watch hook r pr (t # ts) =
     (let pr' = fold (deliver hook) (signals t) pr in
      \<lparr>stop = atomics pr' r, accept = arrival t\<rparr> # watch hook r pr' ts)"

definition bin_run ::
  "vars \<Rightarrow> env \<Rightarrow> system \<Rightarrow> codec \<Rightarrow> (nat \<Rightarrow> io_kind + unit) \<Rightarrow> hook \<Rightarrow> turn list \<Rightarrow> unit serving" where
  "bin_run vars e sys j reg hook turns =
     seq (in_world (validate_root e))
     (bind (in_world (load_token vars e)) (\<lambda>tok.
      let server = bin_server vars sys tok;
          (d, pr) = Shutdown_new process_start;
          (r, pr') = install_signal_handlers reg d pr in
      seq (lift r)
          (let flag = Shutdown_flag d in server_run e j server (watch hook flag pr' turns))))"

datatype exit_code = SUCCESS | FAILURE

definition main ::
  "vars \<Rightarrow> env \<Rightarrow> system \<Rightarrow> codec \<Rightarrow> (nat \<Rightarrow> io_kind + unit) \<Rightarrow> hook \<Rightarrow> turn list \<Rightarrow> exit_code serving" where
  "main vars e sys j reg hook turns =
     handle (bin_run vars e sys j reg hook turns) (\<lambda>_. return SUCCESS) (\<lambda>_. return FAILURE)"

text \<open>
  The whole entry point: the subscriber is installed first and the result of that is discarded. The
  registry of \<^verbatim>\<open>tracing\<close> is a state beside the server's, which \<open>main\<close>, the rest, does not touch.
\<close>

definition process_main ::
  "('f, 'g) tracing \<Rightarrow> vars \<Rightarrow> env \<Rightarrow> system \<Rightarrow> codec \<Rightarrow> (nat \<Rightarrow> io_kind + unit) \<Rightarrow> hook \<Rightarrow> turn list
     \<Rightarrow> ('g \<times> session, error, exit_code) act" where
  "process_main tr vars e sys j reg hook turns = (\<lambda>(g, s).
     let (_, g') = init tr g; (r, s') = main vars e sys j reg hook turns s in (r, (g', s')))"

text \<open>What is shown of \<open>main\<close> holds of the entry point, and it runs with a subscriber installed.\<close>

lemma process_main_logs:
  assumes "set_once tr" and "wp (main vars e sys j reg hook turns) Q s"
  shows "wp (process_main tr vars e sys j reg hook turns)
    (\<lambda>r (g', s'). Q r s' \<and> (global_default tr g = None \<longrightarrow> global_default tr g' = Some (init_subscriber tr))) (g, s)"
  using assms(2) init_first(2) [OF assms(1)] by (simp add: wp_fst_snd process_main_def split_def Let_def)

section \<open>Signals and turns\<close>

text \<open>The turn that sees a stop is one that comes with or after a signal for the flag.\<close>

lemma watch_stops:
  assumes "sets_registered hook"
  shows "list_ex stop (watch hook r pr turns) \<longleftrightarrow> turns \<noteq> [] \<and> (atomics pr r
    \<or> (\<exists>t \<in> set turns. \<exists>sig \<in> set (signals t). (sig, r) \<in> set (registered pr)))"
  by (induction turns arbitrary: pr) (auto simp: Let_def delivers_iff [OF assms])

text \<open>A turn whose signals include one the helper handles.\<close>

definition told_to_stop :: "turn list \<Rightarrow> bool" where
  "told_to_stop turns \<longleftrightarrow> (\<exists>t \<in> set turns. SIGTERM \<in> set (signals t) \<or> SIGINT \<in> set (signals t))"

lemma told_to_stop_watch:
  assumes "sets_registered hook" and "told_to_stop turns"
    and "Shutdown_new process_start = (d, pr)" and "install_signal_handlers reg d pr = (Inr (), pr')"
  shows "list_ex stop (watch hook (Shutdown_flag d) pr' turns)"
  using fresh_flag(2) [OF assms(3,4)] assms(2)
  by (auto simp: watch_stops [OF assms(1)] told_to_stop_def Shutdown_flag_def)

text \<open>What the process does after its start is one run of the server, on the polls of some turns.\<close>

lemma bin_run_eq:
  "\<exists>r polls. bin_run vars e sys j reg hook turns =
     seq (in_world (validate_root e))
     (bind (in_world (load_token vars e)) (\<lambda>tok. seq (lift r) (server_run e j (bin_server vars sys tok) polls)))
   \<and> (sets_registered hook \<longrightarrow> told_to_stop turns \<longrightarrow> r = Inr () \<longrightarrow> list_ex stop polls)"
proof -
  obtain d pr where d: "Shutdown_new process_start = (d, pr)" by fastforce
  obtain r pr' where r: "install_signal_handlers reg d pr = (r, pr')" by fastforce
  show ?thesis
    by (rule exI [of _ r], rule exI [of _ "watch hook (Shutdown_flag d) pr' turns"])
      (use d r in \<open>auto simp: bin_run_def Let_def intro: told_to_stop_watch\<close>)
qed

section \<open>Properties\<close>

lemma bin_server_daemon:
  "bin_server vars sys tok = daemon (bin_socket_path vars) tok (bin_socket_gid vars) (bin_peer_policy vars)
     (production sys (SshdControlConfig_from_env (env_var vars)) (OpsConfig_from_env (env_var vars)))"
  by (simp add: bin_server_def daemon_def production_def)

text \<open>
  C40 (functional). The policy of the running helper: when the configured user id is a decimal
  number of at most 32 bits, up to white space around it, exactly that user and root are
  admitted; in every other case, a value that is present but malformed included, everyone is.
\<close>

theorem bin_peer_policy_admits:
  "authorize (bin_peer_policy vars) c = Inr () \<longleftrightarrow>
     (case Option.bind (env_var vars (lit ''MAYFLY_HELPER_ALLOWED_UID'')) (\<lambda>v. parse_unsigned 32 (trim v)) of
        None \<Rightarrow> True | Some n \<Rightarrow> uid c = 0 \<or> unat (uid c) = n)"
proof -
  have u: "unat (of_nat n :: u32) = n" if "parse_unsigned 32 v = Some n" for v n
    using that by (auto simp: parse_unsigned_def unat_of_nat Let_def split: if_splits)
  have "uid c = of_nat n \<longleftrightarrow> unat (uid c) = n" if "parse_unsigned 32 v = Some n" for v n
    using u [OF that] by (metis unsigned_word_eqI)
  then show ?thesis
    by (auto simp: bin_peer_policy_def authorize_def PeerPolicy_enforced_def PeerPolicy_unenforced_def Let_def
        Option.bind_eq_Some_conv u split: option.splits if_splits)
qed

lemma mode_0640: "bit (0x1A0 :: u32) n \<longleftrightarrow> n \<in> {5, 7, 8}"
proof -
  have e: "(0x1A0 :: u32) = 2 ^ 8 OR 2 ^ 7 OR 2 ^ 5" by simp
  show ?thesis unfolding e bit_or_iff bit_exp_iff by auto
qed

lemma load_token_validate:
  "load_token vars e = seq (validate_trusted_file e (components (bin_token_path vars)) 0x1A0)
     (bind (map_err Io (fs_read_to_string e (components (bin_token_path vars)))) (\<lambda>raw.
       if trim raw = [] \<or> str_len (trim raw) < MIN_TOKEN_LEN then throw HelperUnauthenticated
       else return (trim raw)))"
  unfolding load_token_def validate_trusted_file_def Let_def seq_assoc seq_return
  by (intro arg_cong2 [of _ _ _ _ seq] arg_cong2 [of _ _ _ _ bind] refl ext) simp

lemma wp_load_token:
  "wp (load_token vars e) (\<lambda>r w'. fs w' = fs w \<and> trace w' = trace w \<and> (case r of
     Ok tok \<Rightarrow> MIN_TOKEN_LEN \<le> str_len tok
       \<and> (\<exists>l i bs raw. lookup e (fs w) False (components (bin_token_path vars)) = Inr (l, i)
            \<and> (\<forall>t. kind i \<noteq> Link t) \<and> owner i = 0 \<and> {n. n < 9 \<and> bit (perm i) n} \<subseteq> {5, 7, 8}
            \<and> read_at e (fs w) (components (bin_token_path vars)) = Inr bs \<and> from_utf8 bs = Some raw \<and> tok = trim raw)
   | Err _ \<Rightarrow> True | Abort _ \<Rightarrow> False)) w"
  unfolding load_token_validate
proof (rule wp_seqI [OF wp_validate_trusted_file], goal_cases)
  case (1 a w1)
  then obtain l i where w1: "fs w1 = fs w" "trace w1 = trace w"
    and li: "lookup e (fs w) False (components (bin_token_path vars)) = Inr (l, i)" "\<forall>t. kind i \<noteq> Link t"
      "owner i = 0" "\<forall>n < 9. bit (perm i) n \<longrightarrow> bit (0x1A0 :: u32) n" by auto
  have "{n. n < 9 \<and> bit (perm i) n} \<subseteq> {5, 7, 8}" using li(4) unfolding mode_0640 by blast
  with w1 li show ?case
    by (auto simp: fs_read_to_string_def fs_read_def wp_simps split: option.splits sum.splits)
qed (auto split: ret.splits)

text \<open>
  C24 (safety). A token is accepted only from a trustworthy file: the entry at the token path is no
  symbolic link, belongs to root and grants nothing beyond 0640; the token is the text that
  reading it gives, without the white space around it, and at least 32 bytes long. That the entry
  is a regular file is neither checked nor claimed. Loading changes nothing.
\<close>

theorem load_token_sound:
  "wp (load_token vars e) (\<lambda>r w'. fs w' = fs w \<and> trace w' = trace w \<and> (case r of
     Ok tok \<Rightarrow> MIN_TOKEN_LEN \<le> str_len tok
       \<and> (\<exists>l i bs raw. lookup e (fs w) False (components (bin_token_path vars)) = Inr (l, i)
            \<and> (\<forall>t. kind i \<noteq> Link t) \<and> owner i = 0 \<and> {n. n < 9 \<and> bit (perm i) n} \<subseteq> {5, 7, 8}
            \<and> read_at e (fs w) (components (bin_token_path vars)) = Inr bs \<and> from_utf8 bs = Some raw \<and> tok = trim raw)
   | Err _ \<Rightarrow> True | Abort _ \<Rightarrow> False)) w"
  by (rule wp_load_token)

text \<open>
  Without root the helper fails at once: nothing is read, bound or started.
\<close>

theorem main_requires_root:
  assumes "effective_uid e \<noteq> 0"
  shows "main vars e sys j reg hook turns s = (Ok FAILURE, s)"
  using assms by (simp add: main_def bin_run_def validate_root_def in_world_def act_simps)

theorem main_requires_root_witness:
  "main Map.empty (host_env\<lparr>euid := 1000\<rparr>) no_programs no_codec (\<lambda>_. Inr ()) registrations [] fresh_session
     = (Ok FAILURE, fresh_session)"
  by (rule main_requires_root) (simp add: effective_uid_def)

text \<open>From the turn that comes with a signal on, nothing the loop could find matters.\<close>

lemma accept_loop_stop:
  "stop p \<Longrightarrow> stop q \<Longrightarrow> accept_loop e j srv (ps @ p # qs) = accept_loop e j srv (ps @ q # rs)"
  by (induction ps) simp_all

lemma watch_append:
  "watch hook r pr (ts @ us) =
     watch hook r pr ts @ watch hook r (fold (\<lambda>t. fold (deliver hook) (signals t)) ts pr) us"
  by (induction ts arbitrary: pr) (simp_all add: Let_def)

lemma turns_registered [simp]:
  "registered (fold (\<lambda>t. fold (deliver hook) (signals t)) ts pr) = registered pr"
  by (induction ts arbitrary: pr) simp_all

lemma server_run_told:
  assumes "sets_registered hook" and "told_to_stop [t]" and "told_to_stop [u]"
    and "Shutdown_new process_start = (d, pr)" and "install_signal_handlers reg d pr = (Inr (), pr')"
  shows "server_run e j srv (watch hook (Shutdown_flag d) pr' (ts @ t # us))
    = server_run e j srv (watch hook (Shutdown_flag d) pr' (ts @ u # vs))"
proof -
  have "atomics (fold (deliver hook) (signals x) (fold (\<lambda>t. fold (deliver hook) (signals t)) ts pr')) (Shutdown_flag d)"
    if "told_to_stop [x]" for x
    using that fresh_flag(2) [OF assms(4,5)]
    by (auto simp: delivers_iff [OF assms(1)] told_to_stop_def Shutdown_flag_def)
  then have "accept_loop e j srv (watch hook (Shutdown_flag d) pr' (ts @ t # us))
      = accept_loop e j srv (watch hook (Shutdown_flag d) pr' (ts @ u # vs))"
    unfolding watch_append watch.simps Let_def by (intro accept_loop_stop) (simp_all add: assms(2,3))
  then show ?thesis by (simp add: server_run_def)
qed

text \<open>
  C27 (equivalence). The helper stops at the first signal: from the turn that a \<^verbatim>\<open>SIGTERM\<close> or \<^verbatim>\<open>SIGINT\<close>
  precedes, nobody who connects, at that turn or later, has any influence on what the process does
  or leaves behind.
\<close>

theorem main_stops_at_signal:
  assumes "sets_registered hook" and "told_to_stop [t]" and "told_to_stop [u]"
  shows "main vars e sys j reg hook (ts @ t # us) = main vars e sys j reg hook (ts @ u # vs)"
proof -
  obtain d pr where d: "Shutdown_new process_start = (d, pr)" by fastforce
  obtain r pr' where r: "install_signal_handlers reg d pr = (r, pr')" by fastforce
  have "seq (lift r) (server_run e j srv (watch hook (Shutdown_flag d) pr' (ts @ t # us)))
      = seq (lift r) (server_run e j srv (watch hook (Shutdown_flag d) pr' (ts @ u # vs)))" for srv
  proof (cases r)
    case (Inr x)
    with r have "install_signal_handlers reg d pr = (Inr (), pr')" by simp
    from server_run_told [OF assms d this] show ?thesis by (rule arg_cong)
  qed (simp add: fun_eq_iff act_simps)
  with d r show ?thesis by (simp add: main_def bin_run_def Let_def)
qed

theorem main_stops_at_signal_witness:
  "main Map.empty host_env no_programs no_codec (\<lambda>_. Inr ()) registrations
     [\<lparr>signals = [], arrival = WouldBlock\<rparr>, \<lparr>signals = [SIGINT], arrival = AcceptError NotFound\<rparr>,
      \<lparr>signals = [], arrival = WouldBlock\<rparr>]
   = main Map.empty host_env no_programs no_codec (\<lambda>_. Inr ()) registrations
     [\<lparr>signals = [], arrival = WouldBlock\<rparr>, \<lparr>signals = [SIGTERM], arrival = WouldBlock\<rparr>]"
  using main_stops_at_signal [OF sets_registered_registrations,
      of "\<lparr>signals = [SIGINT], arrival = AcceptError NotFound\<rparr>" "\<lparr>signals = [SIGTERM], arrival = WouldBlock\<rparr>"
        Map.empty host_env no_programs no_codec "\<lambda>_. Inr ()"
        "[\<lparr>signals = [], arrival = WouldBlock\<rparr>]" "[\<lparr>signals = [], arrival = WouldBlock\<rparr>]" "[]"]
  by (simp add: told_to_stop_def)

end
