(* ===== verification/Liveness.thy ===== *)
theory Liveness
  imports Helper_Bin
begin

text \<open>
  Which code always comes back. \<open>returns m\<close> says that \<open>m\<close> ends with a result or an error from
  every state: it neither panics nor blocks. The combinators keep it, the calls on the file
  system have it, and the commands have it when the programs behind them can be waited for; so
  have the operations, a connection, the accept loop that is told to stop, and the process.
\<close>

section \<open>Code that comes back\<close>

named_theorems returns_intros

definition returns :: "('w, 'e, 'a) act \<Rightarrow> bool" where
  "returns m \<longleftrightarrow> (\<forall>w x. fst (m w) \<noteq> Abort x)"

lemma returns_wp: "returns m \<longleftrightarrow> (\<forall>w. wp m (\<lambda>r w'. \<forall>x. r \<noteq> Abort x) w)"
  by (simp add: returns_def wp_fst_snd)

lemma returns_return [returns_intros]: "returns (return a)"
  by (simp add: returns_def)

lemma returns_Pair [returns_intros]: "returns (Pair (Ok a))"
  by (simp add: returns_def)

lemma returns_throw [returns_intros]: "returns (throw x)"
  by (simp add: returns_def)

lemma returns_lift [returns_intros]: "returns (lift r)"
  by (cases r) (simp_all add: returns_return returns_throw)

lemma returns_handle [returns_intros]:
  "returns m \<Longrightarrow> (\<And>a. returns (f a)) \<Longrightarrow> (\<And>x. returns (g x)) \<Longrightarrow> returns (handle m f g)"
  by (auto simp: returns_def handle_def split: prod.splits ret.splits) (metis fst_conv)+

lemma returns_bind [returns_intros]: "returns m \<Longrightarrow> (\<And>a. returns (f a)) \<Longrightarrow> returns (bind m f)"
  by (auto simp: returns_def bind_def split: prod.splits ret.splits) (metis fst_conv)+

lemma returns_seq [returns_intros]: "returns m \<Longrightarrow> returns n \<Longrightarrow> returns (seq m n)"
  by (simp add: seq_def returns_bind)

lemma returns_map_err [returns_intros]: "returns m \<Longrightarrow> returns (map_err h m)"
  by (simp add: map_err_def returns_handle returns_return returns_throw)

lemma returns_if [returns_intros]: "returns m \<Longrightarrow> returns n \<Longrightarrow> returns (if b then m else n)"
  by simp

lemma returns_option [returns_intros]:
  "returns m \<Longrightarrow> (\<And>a. returns (f a)) \<Longrightarrow> returns (case x of None \<Rightarrow> m | Some a \<Rightarrow> f a)"
  by (cases x) simp_all

section \<open>The file system\<close>

lemma returns_query [returns_intros]: "returns (query e q)"
  by (simp add: returns_def query_def split: option.splits sum.splits)

lemma returns_change [returns_intros]: "returns (change e g)"
  by (simp add: returns_def change_def split: option.splits sum.splits)

lemma returns_calls [returns_intros]:
  "returns (sync_all e l)" "returns (tempfile_new_in e d)" "returns (file_write_all e l bs)"
  by (auto simp: returns_def sync_all_def tempfile_new_in_def file_write_all_def Let_def
      split: option.splits sum.splits)

lemma returns_reads [returns_intros]:
  "returns (symlink_metadata e p)" "returns (metadata e p)" "returns (fs_read e p)" "returns (fs_open e p)"
  unfolding symlink_metadata_def metadata_def fs_read_def fs_open_def by (rule returns_query)+

lemma returns_updates [returns_intros]:
  "returns (fs_mkdir e p)" "returns (fs_set_permissions e p m)" "returns (fs_chown_group e p g)"
  "returns (fs_rename e p q)" "returns (fs_remove_file e p)" "returns (bind_socket e p)"
  "returns (file_set_permissions e l m)"
  unfolding fs_mkdir_def fs_set_permissions_def fs_chown_group_def fs_rename_def fs_remove_file_def
    bind_socket_def file_set_permissions_def
  by (rule returns_change)+

lemma returns_exists [returns_intros]: "returns (path_exists e p)" "returns (path_is_dir e p)"
  unfolding path_exists_def path_is_dir_def by (intro returns_intros)+

lemma returns_create_dir_all [returns_intros]: "returns (create_dir_all e p)"
proof (induction e p rule: create_dir_all.induct)
  case (1 e p)
  show ?case
  proof (cases "p = []")
    case False
    then have "returns (create_dir_all e q)" if "parent p = Some q" for q
      using 1 [of NotFound] that by simp
    then show ?thesis
      by (subst create_dir_all.simps, cases "parent p") (simp_all add: False returns_intros)
  qed (simp add: create_dir_all.simps returns_intros)
qed

lemma returns_security [returns_intros]:
  "returns (ensure_not_symlink e p)" "returns (ensure_owned_by_root e p)"
  "returns (ensure_not_group_or_world_writable e p)" "returns (validate_mode_at_most e p m)"
  unfolding ensure_not_symlink_def is_symlink_def ensure_owned_by_root_def validate_owner_def
    ensure_not_group_or_world_writable_def validate_mode_at_most_def Let_def
  by (intro returns_intros)+

lemma returns_secure_write [returns_intros]: "returns (secure_write e p c m)"
  unfolding secure_write_def drop_on_error_def atomic_replace_def fsync_dir_def split_def
  by (intro returns_intros)

section \<open>The commands\<close>

text \<open>
  The programs can be waited for: whatever is started, while the clock is in range, closes its
  stderr after its exit and can be reaped once it has been killed.
\<close>

definition waitable :: "system \<Rightarrow> sshd_control_config \<Rightarrow> bool" where
  "waitable sys cfg \<longleftrightarrow> (\<forall>w prog args c. sys w prog args = Inr c \<longrightarrow>
     stderr_eof c \<noteq> None \<and> reaped c \<noteq> None \<and> clock w div 1000 + unat (command_timeout cfg) < 2 ^ 63)"

text \<open>Sample programs with this property.\<close>

definition prompt_programs :: system where
  "prompt_programs = (\<lambda>w _ _. if clock w < 2 ^ 60 then Inr slow_child else Inl NotFound)"

lemma waitable_prompt_programs: "waitable prompt_programs SshdControlConfig_default"
  by (auto simp: waitable_def prompt_programs_def slow_child_def SshdControlConfig_default_def
      DEFAULT_COMMAND_TIMEOUT_def split: if_splits)

lemma await_no_abort:
  "stderr_eof c \<noteq> None \<Longrightarrow> reaped c \<noteq> None \<Longrightarrow> fst (await c deadline w) \<noteq> Abort x"
proof (induction c deadline w rule: await.induct)
  case (1 c deadline w)
  then show ?case
    by (subst await.simps)
      (auto simp: act_simps read_child_stderr_def kill_and_wait_def block_def split: sum.splits option.splits)
qed

lemma returns_run [returns_intros]:
  assumes "waitable sys cfg"
  shows "returns (run sys cfg prog args)"
  unfolding returns_def
proof (intro allI)
  fix w x
  show "fst (run sys cfg prog args w) \<noteq> Abort x"
  proof (cases "sys w prog args")
    case (Inr c)
    with assms have "stderr_eof c \<noteq> None" "reaped c \<noteq> None"
      "\<not> 2 ^ 63 \<le> clock w div 1000 + unat (command_timeout cfg)"
      by (force simp: waitable_def not_le)+
    with Inr await_no_abort show ?thesis by (simp add: run_def Let_def)
  qed (simp add: run_def)
qed

lemma returns_commands [returns_intros]:
  assumes "waitable sys cfg"
  shows "returns (validate_config (SystemSshdControl sys cfg))" "returns (reload (SystemSshdControl sys cfg))"
    "returns (is_active (SystemSshdControl sys cfg))"
  by (auto simp: SystemSshdControl_def SystemSshdControl_validate_config_def SystemSshdControl_reload_def
      SystemSshdControl_is_active_def intro!: returns_intros assms split: run_outcome.split)

section \<open>The operations\<close>

lemma returns_files [returns_intros]:
  "returns (read_optional e p)" "returns (read_optional_string e p)" "returns (remove_optional e p)"
  "returns (ensure_directory e p)"
  unfolding read_optional_string_def read_optional_def remove_optional_def ensure_directory_def
  by (intro returns_intros)+

lemma returns_each_directory [returns_intros]: "returns (each_directory e ds)"
  by (induction e ds rule: each_directory.induct) (simp_all add: returns_intros)

lemma returns_dispatch [returns_intros]:
  assumes "waitable sys sc"
  shows "returns (dispatch e (production sys sc cfg) req)"
proof -
  let ?h = "production sys sc cfg"
  have v [returns_intros]: "returns (validate_reload_verify ?h)"
    unfolding validate_reload_verify_def by (simp, intro returns_intros assms)
  have "returns (rollback_path e ?h p prev)" for p prev
    unfolding rollback_path_def by (intro returns_intros v)
  then have "returns (install_sshd_dropin e ?h)" "returns (apply_trusted_ca_keys e ?h c)" for c
    unfolding install_sshd_dropin_def apply_trusted_ca_keys_def ensure_directories_def ensure_include_present_def Let_def
    by (intro returns_intros v | assumption)+
  moreover have "returns (verify_state e ?h)"
    unfolding verify_state_def Let_def production_sel by (intro returns_intros assms)
  ultimately show ?thesis
    by (cases "op req") (simp_all add: dispatch_def to_response_def ensure_directories_def returns_intros)
qed

section \<open>The server\<close>

lemma returns_in_world [returns_intros]: "returns m \<Longrightarrow> returns (in_world m)"
  by (auto simp: returns_def in_world_def split: prod.splits) (metis fst_conv)

text \<open>A connection comes back for the timeouts it sets: the peer may stay silent for ever.\<close>

lemma evaluate_ok:
  assumes "\<And>req. returns (dispatch e (ops srv) req)"
  obtains resp w' where "evaluate e srv peer req w = (Ok resp, w')"
proof -
  have "returns (evaluate e srv peer req)" by (simp add: evaluate_eq assms returns_return)
  moreover obtain r w' where r: "evaluate e srv peer req w = (r, w')" by fastforce
  ultimately have "\<forall>x. r \<noteq> Abort x" by (auto simp: returns_def dest: spec [of _ w])
  moreover from wpD [OF wp_evaluate_proper r] have "\<forall>x. r \<noteq> Err x" by auto
  ultimately show thesis using r that by (cases r) auto
qed

lemma returns_handle_connection:
  assumes "\<And>req. returns (dispatch e (ops srv) req)"
  shows "returns (with_conn c (handle_connection e j srv))"
  unfolding returns_wp
proof (intro allI, rule wp_weaken [OF wp_connection_served], goal_cases)
  case (1 s r s')
  show ?case
  proof (cases "armed c")
    case True
    with 1 obtain n where n: "served e j srv c n s r s'" by auto
    show ?thesis
    proof (cases "received j c")
      case (Inr q)
      obtain resp w where "evaluate e srv (peer_of c) q (delayed n (host_world s)) = (Ok resp, w)"
        by (rule evaluate_ok [OF assms])
      with n Inr show ?thesis by (simp add: served_def)
    qed (use n in \<open>simp add: served_def\<close>)
  qed (use 1 in auto)
qed

text \<open>The loop that is told to stop ends without an error, whatever happened on its connections.\<close>

lemma accept_loop_ok:
  assumes "list_ex stop polls" and d: "\<And>req. returns (dispatch e (ops srv) req)"
  shows "fst (accept_loop e j srv polls s) = Ok ()"
  using assms(1)
proof (induction polls arbitrary: s)
  case (Cons p ps)
  have turn: "\<exists>s1. handle (with_conn c (handle_connection e j srv)) return (\<lambda>_. return ()) s = (Ok (), s1)" for c
    using returns_handle_connection [OF d, of c j]
    by (auto simp: returns_def handle_apply split: prod.splits ret.splits) (metis fst_conv)
  show ?case
  proof (cases "stop p")
    case False
    have "\<exists>s1. (case accept p of
                  Connected c \<Rightarrow> handle (with_conn c (handle_connection e j srv)) return (\<lambda>_. return ())
                | WouldBlock \<Rightarrow> sleep ACCEPT_POLL
                | AcceptError k \<Rightarrow> sleep ACCEPT_POLL) s = (Ok (), s1)"
      using turn by (cases "accept p") (simp_all add: sleep_def)
    with False Cons show ?thesis by (auto simp: seq_apply)
  qed simp
qed simp

section \<open>The process\<close>

lemma wp_returns: "returns m \<Longrightarrow> (\<And>r w'. \<forall>x. r \<noteq> Abort x \<Longrightarrow> Q r w') \<Longrightarrow> wp m Q w"
  by (simp add: returns_def wp_fst_snd)

text \<open>Nothing of the connections, the audit lines and the numbers has changed.\<close>

definition unserved :: "session \<Rightarrow> session \<Rightarrow> bool" where
  "unserved s s' \<longleftrightarrow> conns s' = conns s \<and> audit_log s' = audit_log s \<and> request_seq s' = request_seq s"

lemma wp_startup:
  "returns m \<Longrightarrow> unserved s0 s \<Longrightarrow> wp (in_world m) (\<lambda>r s'. (\<forall>x. r \<noteq> Abort x) \<and> unserved s0 s') s"
  unfolding wp_in_world by (erule wp_returns) (simp add: unserved_def)

lemma returns_startup [returns_intros]:
  "returns (validate_root e)" "returns (load_token vars e)" "returns (bind_listener e srv)" "returns (set_nonblocking e)"
  unfolding validate_root_def load_token_def fs_read_to_string_def bind_listener_def set_socket_mode_def
    set_nonblocking_def Let_def
  by (intro returns_intros)+

lemma wp_server_run_ends:
  assumes "list_ex stop polls" and "\<And>req. returns (dispatch e (ops srv) req)" and "unserved s0 s"
  shows "wp (server_run e j srv polls) (\<lambda>r s'. r = Ok () \<or> (\<exists>x. r = Err x) \<and> unserved s0 s') s"
  unfolding server_run_def
proof (rule wp_seqI [OF wp_startup [OF returns_startup(3) assms(3)]], goal_cases)
  case (1 a s1)
  then have "returns (map_err Io (set_nonblocking e))" and "unserved s0 s1" by (auto intro!: returns_intros)
  from wp_startup [OF this] show ?case
  proof (rule wp_seqI, goal_cases)
    case (1 a s2)
    have "wp (accept_loop e j srv polls) (\<lambda>r s'. r = Ok ()) s2"
      using accept_loop_ok [OF assms(1,2)] by (simp add: wp_fst_snd)
    then show ?case
    proof (rule wp_seqI, goal_cases)
      case (1 a s3)
      show ?case
        unfolding wp_in_world wp_handle
        by (rule wp_returns [OF returns_updates(5)]) (simp add: wp_return split: ret.splits)
    qed simp_all
  qed auto
qed auto

lemma wp_bin_run_ends:
  assumes "sets_registered hook" and "told_to_stop turns"
    and "waitable sys (SshdControlConfig_from_env (env_var vars))"
  shows "wp (bin_run vars e sys j reg hook turns) (\<lambda>r s'. r = Ok () \<or> (\<exists>x. r = Err x) \<and> unserved s s') s"
proof -
  obtain r polls where run: "bin_run vars e sys j reg hook turns =
     seq (in_world (validate_root e))
     (bind (in_world (load_token vars e)) (\<lambda>tok. seq (lift r) (server_run e j (bin_server vars sys tok) polls)))"
    and stops: "r = Inr () \<Longrightarrow> list_ex stop polls"
    using bin_run_eq assms(1,2) by metis
  have srv: "wp (server_run e j (bin_server vars sys tok) polls)
      (\<lambda>r s'. r = Ok () \<or> (\<exists>x. r = Err x) \<and> unserved s s') s1" if "r = Inr ()" "unserved s s1" for tok s1
    using that returns_dispatch [OF assms(3)]
    by (intro wp_server_run_ends stops) (simp_all add: bin_server_daemon)
  have "unserved s s" by (simp add: unserved_def)
  from wp_startup [OF returns_startup(1) this] show ?thesis
    unfolding run
  proof (rule wp_seqI, goal_cases)
    case (1 a s1)
    then have "unserved s s1" by simp
    from wp_startup [OF returns_startup(2) this] show ?case
      by (rule wp_bindI) (auto simp: wp_seq wp_lift intro: srv split: sum.splits)
  qed auto
qed

text \<open>
  C26 (liveness). The process ends. When a \<^verbatim>\<open>SIGTERM\<close> or a \<^verbatim>\<open>SIGINT\<close> arrives at some turn and the
  programs it starts can be waited for, then whoever connects, whatever they send, even if they
  fall silent for ever, and whatever calls fail, \<^verbatim>\<open>main\<close> returns an exit code; and it returns \<open>FAILURE\<close> only when the start itself
  failed, before any connection was accepted: no error on a connection ends the helper. What is
  assumed of \<^verbatim>\<open>signal_hook\<close> is that a signal sets the flags registered for it.
\<close>

theorem main_exits:
  assumes "sets_registered hook" and "told_to_stop turns"
    and "waitable sys (SshdControlConfig_from_env (env_var vars))"
  shows "wp (main vars e sys j reg hook turns)
     (\<lambda>r s'. r = Ok SUCCESS \<or> r = Ok FAILURE \<and> unserved s s') s"
  unfolding main_def wp_handle
  by (rule wp_weaken [OF wp_bin_run_ends [OF assms]]) (auto simp: wp_return)

end
