(* ===== verification/End_To_End.thy ===== *)
theory End_To_End
  imports Liveness
begin

text \<open>
  A request from the client's bytes to the client's reading of the reply: the framing, the
  codec, the authentication, the operation and the file system together. The codec is the
  parameter of \<open>Protocol\<close>; what is used of it is that it reads back what it wrote.
\<close>

section \<open>One exchange\<close>

text \<open>The codec reads back what it wrote, and what an operation answers fits into a frame.\<close>

definition codec_ok :: "codec \<Rightarrow> bool" where
  "codec_ok j \<longleftrightarrow>
     (\<forall>req b. encode_request j req = Inr b \<longrightarrow> decode_request j b = Inr req)
   \<and> (\<forall>resp b. encode_response j resp = Inr b \<longrightarrow> decode_response j b = Inr resp)
   \<and> (\<forall>resp. proper messages resp \<and> helper_version resp = None \<longrightarrow>
        (\<exists>b. encode_response j resp = Inr b \<and> length b \<le> MAX_BODY_BYTES))"

text \<open>
  The socket calls on the connection succeed, and the client sends the request as one frame, never
  waiting longer than the read timeout.
\<close>

definition delivers :: "codec \<Rightarrow> request \<Rightarrow> connection \<Rightarrow> bool" where
  "delivers j req c \<longleftrightarrow>
     set_read_timeout c IO_TIMEOUT = Inr () \<and> set_write_timeout c IO_TIMEOUT = Inr ()
   \<and> room (outgoing c) = None \<and> flushes (outgoing c) \<and> sunk (outgoing c) = []
   \<and> (\<exists>body rest. encode_request j req = Inr body \<and> length body \<le> MAX_BODY_BYTES
        \<and> avail (under_timeout IO_TIMEOUT (incoming c)) = sunk (snd (write_frame body \<lparr>sunk = [], room = None, flushes = True\<rparr>)) @ rest)"

text \<open>What a client that reads the reply in any pieces understands.\<close>

definition understood :: "codec \<Rightarrow> connection \<Rightarrow> response \<Rightarrow> bool" where
  "understood j c resp \<longleftrightarrow> (\<forall>r. avail r = sunk (outgoing c) \<longrightarrow>
     (\<exists>b. fst (read_frame r) = Inr b \<and> decode_response j b = Inr resp))"

lemma read_request_delivered:
  assumes "codec_ok j" and "delivers j req c"
  shows "received j c = Inr req"
proof -
  from assms(2) obtain body rest where body: "encode_request j req = Inr body" "length body \<le> MAX_BODY_BYTES"
      "avail (under_timeout IO_TIMEOUT (incoming c)) = frame body @ rest"
    by (auto simp: delivers_def write_frame_ok)
  then have "fst (read_frame (under_timeout IO_TIMEOUT (incoming c))) = Inr body"
    by (simp add: read_frame_parse parse_frame_frame)
  moreover from assms(1) body(1) have "decode_request j body = Inr req" by (simp add: codec_ok_def)
  ultimately show ?thesis by (simp add: received_def)
qed

lemma exchange:
  assumes j: "codec_ok j" and c: "delivers j req c" and auth: "authenticated srv (peer_of c) req"
    and d: "\<And>n. wp (dispatch e (ops srv) req) (\<lambda>r w. \<exists>resp. r = Ok resp \<and> P resp (fs w)
        \<and> proper messages resp \<and> helper_version resp = None) (delayed n (host_world s))"
  shows "\<exists>s' c' resp. with_conn c (handle_connection e j srv) s = (Ok (), s') \<and> P resp (fs (host_world s'))
     \<and> conns s' = c' # conns s \<and> understood j c' resp"
proof -
  from c have t: "set_read_timeout c IO_TIMEOUT = Inr ()" "set_write_timeout c IO_TIMEOUT = Inr ()"
      and o: "room (outgoing c) = None" "flushes (outgoing c)" "sunk (outgoing c) = []"
    by (simp_all add: delivers_def)
  let ?c = "c\<lparr>read_limit := Some IO_TIMEOUT\<rparr>"
  let ?s = "s\<lparr>request_seq := request_seq s + 1, conns := ?c # conns s\<rparr>"
  obtain r s1 where rd: "read_from_peer j ?s = (r, s1)" by fastforce
  have "received j ?c = Inr req" using read_request_delivered [OF j c] by (simp add: received_def)
  with wpD [OF wp_read_from_peer rd] obtain n rest where r: "r = Ok req"
    and s1: "s1 = ?s\<lparr>host_world := delayed n (host_world s), conns := ?c\<lparr>incoming := rest\<rparr> # conns s\<rparr>" by fastforce
  from d [of n] obtain resp w where w: "dispatch e (ops srv) req (delayed n (host_world s)) = (Ok resp, w)"
      "P resp (fs w)" "proper messages resp" "helper_version resp = None"
    by (auto simp: wp_def split: prod.splits)
  from j w(3,4) obtain b where b: "encode_response j resp = Inr b" "length b \<le> MAX_BODY_BYTES"
    unfolding codec_ok_def by blast
  let ?c' = "?c\<lparr>incoming := rest, outgoing := (outgoing c)\<lparr>sunk := frame b\<rparr>\<rparr>"
  have "\<exists>s'. with_conn c (handle_connection e j srv) s = (Ok (), s') \<and> host_world s' = delayed (drain_time c) w
      \<and> conns s' = ?c' # conns s"
    by (simp add: with_conn_def handle_connection_def serve_connection_def reply_to_def act_simps
        fetch_add_seq_def conn_result_def apply_read_timeout_def t rd r s1 set_conn_def in_world_def evaluate_eq auth w(1)
        audit_def b write_to_peer_def write_frame_ok o Let_def)
  moreover from j b have "understood j ?c' resp"
    using parse_frame_frame [OF b(2), of "[]"]
    by (auto simp: understood_def codec_ok_def read_frame_parse)
  ultimately show ?thesis using w(2) by fastforce
qed

section \<open>Applying keys\<close>

text \<open>What a reply to an apply request says about the host.\<close>

definition truthful :: "env \<Rightarrow> path \<Rightarrow> bytes \<Rightarrow> fs \<Rightarrow> response \<Rightarrow> fs \<Rightarrow> bool" where
  "truthful e p c f resp f' \<longleftrightarrow>
     (\<exists>a \<in> {Applied, NotModified}. resp = Response_success a \<and> holds e p c f')
   \<or> (\<exists>x \<in> {SshdValidationFailed, SshdReloadFailed, SshdInactive}.
        resp = Response_failure RolledBack (error_display x) \<and> data f' = data f)"

lemma truthful_proper: "truthful e p c f resp f' \<Longrightarrow> proper messages resp \<and> helper_version resp = None"
  by (auto simp: truthful_def Response_success_def Response_failure_def proper_def
      simp del: error_display.simps)

lemma dispatch_apply_truthful:
  assumes "fault e = (\<lambda>_. None)" and "TrustedCaKeys_parse new_keys = Inr t" and "waitable sys sc"
    and "host_ready e (production sys sc cfg) (components (trusted_ca_path cfg)) (fs w)"
  shows "wp (dispatch e (production sys sc cfg) (Request_apply tok new_keys))
     (\<lambda>r w'. \<exists>resp. r = Ok resp
        \<and> truthful e (components (trusted_ca_path cfg)) (as_bytes new_keys) (fs w) resp (fs w')) w"
proof -
  let ?m = "apply_trusted_ca_keys e (production sys sc cfg) new_keys"
  have d: "dispatch e (production sys sc cfg) (Request_apply tok new_keys) =
      handle ?m (\<lambda>r. return (Response_success r)) (\<lambda>x. return (Response_failure RolledBack (error_display x)))"
    by (simp add: dispatch_def Request_apply_def)
  have "wp ?m (\<lambda>r w'. \<forall>x. r \<noteq> Abort x) w"
    using returns_dispatch [OF assms(3), of e cfg "Request_apply tok new_keys"]
    by (auto simp: d returns_def handle_apply wp_def split: prod.splits ret.splits)
  from wp_conj [OF this system.wp_apply_ready [of "production sys sc cfg" sys sc e w new_keys t, OF _ _ _ _ host_ready_stable [where h = "production sys sc cfg"]]] assms
  show ?thesis
    unfolding d wp_handle by (auto simp: wp_return truthful_def elim!: wp_weaken split: ret.splits)
qed

text \<open>
  C5 (functional). From end to end: a client that the policy admits and that holds the token sends
  a well-formed list of keys as one frame, in any pieces, to a helper on a host in order, on which no
  call fails and whose programs can be waited for; and the codec reads back what it wrote, and
  writes every answer of the helper within the size limit. The connection is served without error, and the client that reads
  the reply, in any pieces, learns the truth: that the keys are applied or were already, and then
  the managed file holds exactly them; or that they were rolled back, with the error of the
  command that failed, and then every file of the host has the bytes it had before.
\<close>

theorem apply_end_to_end:
  assumes "codec_ok j" and "delivers j (Request_apply tok new_keys) c" and "peer_admitted pol (peer_of c)"
    and "fault e = (\<lambda>_. None)" and "TrustedCaKeys_parse new_keys = Inr t" and "waitable sys sc"
    and "host_ready e (production sys sc cfg) (components (trusted_ca_path cfg)) (fs (host_world s))"
  shows "\<exists>s' c' resp. with_conn c (handle_connection e j (daemon p tok g pol (production sys sc cfg))) s = (Ok (), s')
     \<and> conns s' = c' # conns s \<and> understood j c' resp
     \<and> truthful e (components (trusted_ca_path cfg)) (as_bytes new_keys)
         (fs (host_world s)) resp (fs (host_world s'))"
proof -
  let ?srv = "daemon p tok g pol (production sys sc cfg)" and ?req = "Request_apply tok new_keys"
  let ?P = "truthful e (components (trusted_ca_path cfg)) (as_bytes new_keys) (fs (host_world s))"
  have d: "wp (dispatch e (ops ?srv) ?req) (\<lambda>r w. \<exists>resp. r = Ok resp \<and> ?P resp (fs w)
      \<and> proper messages resp \<and> helper_version resp = None) (delayed n (host_world s))" for n
    using dispatch_apply_truthful [OF assms(4-6), of cfg "delayed n (host_world s)" tok] assms(7)
    by (simp, elim wp_weaken) (auto dest: truthful_proper)
  have "authenticated ?srv (peer_of c) ?req"
    using assms(3) by (simp add: authenticated_def Request_apply_def)
  from exchange [OF assms(1,2) this d] show ?thesis by blast
qed

text \<open>A sample codec: one request, and the responses without a version whose text is ASCII.\<close>

fun outcome_code :: "outcome \<Rightarrow> u8" where
  "outcome_code OutcomeOk = 0"
| "outcome_code Applied = 1"
| "outcome_code RolledBack = 2"
| "outcome_code NotModified = 3"
| "outcome_code Unhealthy = 4"

definition code_outcome :: "u8 \<Rightarrow> outcome" where
  "code_outcome n = (if n = 0 then OutcomeOk else if n = 1 then Applied else if n = 2 then RolledBack
     else if n = 3 then NotModified else Unhealthy)"

lemma code_outcome_code [simp]: "code_outcome (outcome_code r) = r"
  by (cases r) (simp_all add: code_outcome_def)

definition sample_codec :: codec where
  "sample_codec =
     \<lparr>to_vec_request = (\<lambda>r. if r = Request_apply sample_token sample_keys then Some [1] else None),
      from_slice_request = (\<lambda>b. if b = [1] then Some (Request_apply sample_token sample_keys) else None),
      to_vec_response = (\<lambda>r. if helper_version r \<noteq> None then None
        else case detail r of
               None \<Rightarrow> Some [if ok r then 1 else 0, outcome_code (outcome r)]
             | Some d \<Rightarrow> if list_all (\<lambda>c. c < 256) d
                 then Some ((if ok r then 1 else 0) # outcome_code (outcome r) # 1 # map of_nat d) else None),
      from_slice_response = (\<lambda>b. case b of
          [k, n] \<Rightarrow> Some \<lparr>ok = (k = 1), outcome = code_outcome n, helper_version = None, detail = None\<rparr>
        | k # n # _ # d \<Rightarrow>
            Some \<lparr>ok = (k = 1), outcome = code_outcome n, helper_version = None, detail = Some (map unat d)\<rparr>
        | _ \<Rightarrow> None)\<rparr>"

lemma messages_ascii: "d \<in> set messages \<Longrightarrow> list_all (\<lambda>c. c < 256) d \<and> length d < 100"
  by (auto simp: messages_def lit_def)

lemma map_unat_of_nat: "list_all (\<lambda>c. c < 256) d \<Longrightarrow> map unat (map (of_nat :: nat \<Rightarrow> u8) d) = d"
  by (induction d) (simp_all add: unat_of_nat)

lemma sample_codec_ok: "codec_ok sample_codec"
  unfolding codec_ok_def
proof (intro conjI allI impI)
  fix req b
  assume "encode_request sample_codec req = Inr b"
  then show "decode_request sample_codec b = Inr req"
    by (auto simp: encode_request_def decode_request_def or_protocol_def sample_codec_def split: if_splits)
next
  fix resp b
  assume "encode_response sample_codec resp = Inr b"
  then show "decode_response sample_codec b = Inr resp"
    by (cases resp)
      (auto simp: encode_response_def decode_response_def or_protocol_def sample_codec_def map_unat_of_nat
        simp del: map_map split: if_splits option.splits)
next
  fix resp :: response
  assume "proper messages resp \<and> helper_version resp = None"
  then show "\<exists>b. encode_response sample_codec resp = Inr b \<and> length b \<le> MAX_BODY_BYTES"
    using messages_ascii
    by (auto simp: proper_def encode_response_def or_protocol_def sample_codec_def MAX_BODY_BYTES_def
        split: option.splits) fastforce+
qed

definition client_conn :: connection where
  "client_conn = stray_conn\<lparr>incoming := [(Some 9, Data [0, 0]), (Some 2, Interrupted), (Some 0, Data [0, 1, 1])],
     outgoing := \<lparr>sunk = [], room = None, flushes = True\<rparr>\<rparr>"

lemma client_delivers: "delivers sample_codec (Request_apply sample_token sample_keys) client_conn"
proof -
  have "encode_request sample_codec (Request_apply sample_token sample_keys) = Inr [1]"
    by (simp add: encode_request_def sample_codec_def or_protocol_def)
  then show ?thesis
    by (simp add: delivers_def client_conn_def stray_conn_def wait_for_def IO_TIMEOUT_def write_frame_ok MAX_BODY_BYTES_def frame_def
        to_be_bytes_def)
qed

theorem apply_end_to_end_witness:
  "\<exists>s' c' resp. with_conn client_conn (handle_connection host_env sample_codec
         (daemon [] sample_token None PeerPolicy_unenforced
            (production prompt_programs SshdControlConfig_default OpsConfig_default))) fresh_session = (Ok (), s')
     \<and> conns s' = c' # conns fresh_session \<and> understood sample_codec c' resp
     \<and> truthful host_env (components (trusted_ca_path OpsConfig_default)) (as_bytes sample_keys)
         (fs (host_world fresh_session)) resp (fs (host_world s'))"
  by (rule apply_end_to_end [OF sample_codec_ok client_delivers _ _ sample_keys_parse waitable_prompt_programs])
    (simp_all add: peer_admitted_def PeerPolicy_unenforced_def fresh_session_def host_is_ready)

end
