(* ===== verification/Host_Refinement.thy ===== *)
theory Host_Refinement
  imports Host_Spec End_To_End
begin

text \<open>
  The server implements the machine of \<open>Host_Spec\<close>: on a host in order, with no failing call and
  programs that can be waited for, every connection is a step of that machine, and the audit
  lines are its history.
\<close>

section \<open>A host in order, for both files\<close>

text \<open>
  The managed files have locations \<open>lc\<close> and \<open>ld\<close> of their own, both can be replaced, and no
  temporary name of either directory is one of them.
\<close>

definition in_order :: "env \<Rightarrow> helper_ops \<Rightarrow> loc \<Rightarrow> loc \<Rightarrow> fs \<Rightarrow> bool" where
  "in_order e h lc ld f \<longleftrightarrow>
     (let pc = components (trusted_ca_path (config h)); pd = components (dropin_path (config h)) in
      resolve e f False pc = Inr lc \<and> resolve e f False pd = Inr ld \<and> lc \<noteq> ld
    \<and> host_ready e h pc f \<and> host_ready e h pd f
    \<and> (\<forall>p \<in> {pc, pd}. \<forall>dir n lt. parent_of p = Inr dir \<longrightarrow> resolve e f False (tmp_path e n dir) = Inr lt \<longrightarrow>
         lt \<noteq> lc \<and> lt \<noteq> ld))"

definition files_at :: "loc \<Rightarrow> loc \<Rightarrow> fs \<Rightarrow> files" where
  "files_at lc ld f =
     \<lparr>ca_file = data f lc, dropin_file = data f ld, other_files = (data f)(lc := None, ld := None)\<rparr>"

lemma files_at_same: "data g = data f \<Longrightarrow> files_at lc ld g = files_at lc ld f"
  by (simp add: files_at_def)

lemma in_order_same: "same_nodes f g \<Longrightarrow> in_order e h lc ld f \<Longrightarrow> in_order e h lc ld g"
  unfolding in_order_def Let_def by (simp add: same_nodes_resolve host_ready_same)

lemma files_at_same_nodes: "same_nodes f g \<Longrightarrow> files_at lc ld g = files_at lc ld f"
  by (rule files_at_same) (rule same_nodes_at(5))

text \<open>Replacing the file at \<open>p\<close> leaves the file at \<open>q\<close> replaceable.\<close>

lemma ready_other:
  assumes rd: "ready e q f" and p: "resolve e f False p = Inr lp" "no_link e p f" "installed e p c m f g"
    and q: "resolve e f False q = Inr lq" "lp \<noteq> lq"
    and tmp: "\<And>dir n lt. parent_of q = Inr dir \<Longrightarrow> resolve e f False (tmp_path e n dir) = Inr lt \<Longrightarrow> lt \<noteq> lp"
  shows "ready e q g"
proof -
  from installed_plain [OF p(3,2)] p(1) have g: "plain f lp" "g = f(lp \<mapsto> new_file e c m)" by auto
  then have r: "resolve e g fl x = Inr k \<longleftrightarrow> resolve e f fl x = Inr k" for fl x k
    by (simp add: resolve_plain_upd)
  have at: "g k = f k" "data g k = data f k" if "k \<noteq> lp" for k using that g(2) by simp_all
  from rd obtain dir where dir: "parent_of q = Inr dir" "dir_ready e dir f"
      "f lq = None \<or> (\<exists>d. data f lq = Some d)"
      "\<forall>n. \<exists>lt. resolve e f False (tmp_path e n dir) = Inr lt \<and> f lt = None \<and> lt \<noteq> lq"
    using q(1) by (auto simp: ready_def)
  have "\<exists>lt. resolve e g False (tmp_path e n dir) = Inr lt \<and> g lt = None \<and> lt \<noteq> lq" for n
    using dir(4) tmp [OF dir(1)] at r by metis
  with dir dir_ready_installed [OF p(2,3)] q at r show ?thesis
    unfolding ready_def by (intro exI [of _ dir] exI [of _ lq]) auto
qed

lemma in_order_installed:
  assumes io: "in_order e h lc ld f" and inst: "installed e p c m f g"
    and p: "p = components (trusted_ca_path (config h)) \<or> p = components (dropin_path (config h))"
  shows "in_order e h lc ld g"
proof -
  let ?pc = "components (trusted_ca_path (config h))" and ?pd = "components (dropin_path (config h))"
  from io have o: "resolve e f False ?pc = Inr lc" "resolve e f False ?pd = Inr ld" "lc \<noteq> ld"
      "host_ready e h ?pc f" "host_ready e h ?pd f"
      "\<And>q dir n lt. q \<in> {?pc, ?pd} \<Longrightarrow> parent_of q = Inr dir \<Longrightarrow> resolve e f False (tmp_path e n dir) = Inr lt \<Longrightarrow>
         lt \<noteq> lc \<and> lt \<noteq> ld"
    by (auto simp: in_order_def Let_def)
  have nl: "no_link e p f" using p o(4,5) by (auto simp: host_ready_def intro: ready_no_link)
  from installed_plain [OF inst nl] have r: "resolve e g fl x = Inr k \<longleftrightarrow> resolve e f fl x = Inr k" for fl x k
    by (auto simp: resolve_plain_upd)
  have dirs: "list_all (\<lambda>d. case d of None \<Rightarrow> True | Some q \<Rightarrow> dir_ready e q g) [parent ?pc, parent ?pd]"
    using o(4) dir_ready_installed [OF nl inst] by (auto simp: host_ready_def split: option.splits)
  have "ready e ?pc g \<and> ready e ?pd g"
    using p
  proof
    assume p: "p = ?pc"
    have "ready e ?pd g"
      by (rule ready_other [OF _ _ nl inst o(2,3)]) (use o p in \<open>auto simp: host_ready_def\<close>)
    with p o(4) ready_installed [OF _ inst] show ?thesis by (auto simp: host_ready_def)
  next
    assume p: "p = ?pd"
    have "ready e ?pc g"
      by (rule ready_other [OF _ _ nl inst o(1) o(3) [symmetric]]) (use o p in \<open>auto simp: host_ready_def\<close>)
    with p o(5) ready_installed [OF _ inst] show ?thesis by (auto simp: host_ready_def)
  qed
  with dirs o show ?thesis unfolding in_order_def Let_def host_ready_def r by auto
qed

lemma in_order_stable:
  "stable_at e (components (trusted_ca_path (config h))) (in_order e h lc ld)"
  "stable_at e (components (dropin_path (config h))) (in_order e h lc ld)"
  unfolding stable_at_def by (blast intro: in_order_same in_order_installed)+

section \<open>The operations\<close>

text \<open>What is read at a managed path is what is at its location.\<close>

lemma in_order_paths:
  assumes "in_order e h lc ld f"
  shows "resolve e f fl (components (trusted_ca_path (config h))) = Inr lc"
    and "resolve e f fl (components (dropin_path (config h))) = Inr ld"
    and "f lc = None \<or> (\<exists>d. data f lc = Some d)" and "f ld = None \<or> (\<exists>d. data f ld = Some d)"
proof -
  have nl: "no_link e (components (trusted_ca_path (config h))) f" "no_link e (components (dropin_path (config h))) f"
    using assms by (auto simp: in_order_def Let_def host_ready_def intro: ready_no_link)
  have r: "resolve e f False (components (trusted_ca_path (config h))) = Inr lc"
      "resolve e f False (components (dropin_path (config h))) = Inr ld"
    using assms by (auto simp: in_order_def Let_def)
  with nl show "resolve e f fl (components (trusted_ca_path (config h))) = Inr lc"
      "resolve e f fl (components (dropin_path (config h))) = Inr ld"
    by (cases fl; auto simp: no_link_def intro: resolve_follow)+
  from assms r show "f lc = None \<or> (\<exists>d. data f lc = Some d)" "f ld = None \<or> (\<exists>d. data f ld = Some d)"
    by (auto simp: in_order_def Let_def host_ready_def ready_def)
qed

lemma healthy_filesI:
  assumes io: "in_order e h lc ld f" and ok: "ca_file_ok e h f" "dropin_ok e h f"
  shows "healthy_files (config h) (files_at lc ld f)"
proof -
  note r = in_order_paths [OF io]
  have none: "data f l = None" if "nothing_at e p f \<or> dangling e p f" "resolve e f True p = Inr l" for p l
    using that unfolding not_found_iff [symmetric] by (simp add: lookup_def data_def split: option.splits)
  have ca: "data f lc = None \<or> (\<exists>bs t keys. data f lc = Some bs \<and> from_utf8 bs = Some t \<and> TrustedCaKeys_parse t = Inr keys)"
    using ok(1) none [OF _ r(1) [of True]] r(1) [of False] unfolding ca_file_ok_def Let_def holds_def by auto
  have "data f ld = None \<or> (\<exists>bs t. data f ld = Some bs \<and> from_utf8 bs = Some t
      \<and> trim_end t = trim_end (render_dropin (trusted_ca_path (config h))))"
    using ok(2) none [OF _ r(2) [of True]] r(2) [of True] unfolding dropin_ok_def Let_def reads_as_def by auto
  with ca show ?thesis by (auto simp: healthy_files_def files_at_def)
qed

lemma wp_dispatch_respond:
  assumes "wp m (\<lambda>r w'. case r of Ok a \<Rightarrow> P (f a) w' | Err x \<Rightarrow> P (g x) w' | Abort _ \<Rightarrow> True) w"
    and "returns (handle m (\<lambda>a. return (f a)) (\<lambda>x. return (g x)))"
  shows "wp (handle m (\<lambda>a. return (f a)) (\<lambda>x. return (g x))) (\<lambda>r w'. \<exists>resp. r = Ok resp \<and> P resp w') w"
proof -
  obtain r w' where m: "m w = (r, w')" by fastforce
  with assms(2) have "\<forall>x. r \<noteq> Abort x" by (auto simp: returns_def handle_apply dest: spec [of _ w])
  with assms(1) m show ?thesis by (cases r) (auto simp: wp_def handle_apply)
qed

text \<open>An operation is a step of the abstract machine, and leaves the host in order.\<close>

definition simulated ::
  "env \<Rightarrow> helper_ops \<Rightarrow> loc \<Rightarrow> loc \<Rightarrow> world \<Rightarrow> request \<Rightarrow> response \<Rightarrow> world \<Rightarrow> bool" where
  "simulated e h lc ld w req resp w' \<longleftrightarrow> in_order e h lc ld (fs w')
     \<and> op_step (config h) (files_at lc ld (fs w)) req resp (files_at lc ld (fs w'))"

abbreviation answers ::
  "env \<Rightarrow> helper_ops \<Rightarrow> loc \<Rightarrow> loc \<Rightarrow> world \<Rightarrow> request \<Rightarrow> ('a \<Rightarrow> response) \<Rightarrow> outcome \<Rightarrow> (error, 'a) ret \<Rightarrow> world \<Rightarrow> bool" where
  "answers e h lc ld w req f bad r w' \<equiv> (case r of
     Ok a \<Rightarrow> simulated e h lc ld w req (f a) w'
   | Err x \<Rightarrow> simulated e h lc ld w req (Response_failure bad (error_display x)) w'
   | Abort _ \<Rightarrow> True)"

lemma simulated_unchanged:
  "in_order e h lc ld (fs w') \<Longrightarrow> data (fs w') = data (fs w) \<Longrightarrow>
     op_step (config h) (files_at lc ld (fs w)) req resp (files_at lc ld (fs w)) \<Longrightarrow> simulated e h lc ld w req resp w'"
  unfolding simulated_def by (simp add: files_at_def)

lemma directories_refine:
  assumes ff: "fault e = (\<lambda>_. None)" and io: "in_order e h lc ld (fs w)" and op: "op req = EnsureDirectories"
  shows "wp (ensure_directories e h) (answers e h lc ld w req (\<lambda>_. Response_success OutcomeOk) Unhealthy) w"
proof -
  from io have "host_ready e h (components (trusted_ca_path (config h))) (fs w)" by (simp add: in_order_def Let_def)
  from ensure_directories_ready [OF ff this] show ?thesis
  proof (rule wp_weaken, goal_cases)
    case (1 r w')
    then have sn: "same_nodes (fs w) (fs w')" and r: "r = Ok ()" by simp_all
    from simulated_unchanged [OF in_order_same [OF sn io] same_nodes_at(5) [OF sn]] op r show ?case
      by (simp add: op_step.directories)
  qed
qed

context sshd_control
begin

lemma verify_refines:
  assumes h: "sshd h = ctl" and io: "in_order e h lc ld (fs w)" and op: "op req = VerifyState"
  shows "wp (verify_state e h) (answers e h lc ld w req (\<lambda>_. Response_success OutcomeOk) Unhealthy) w"
proof (rule wp_weaken [OF wp_verify_state [OF h]], goal_cases)
  case (1 r w')
  then have "simulated e h lc ld w req resp w'"
    if "op_step (config h) (files_at lc ld (fs w)) req resp (files_at lc ld (fs w))" for resp
    using that io by (simp add: simulated_def)
  with 1 healthy_filesI [OF io] op show ?case
    by (cases r) (auto intro: op_step.healthy op_step.unhealthy)
qed

lemma install_refines:
  assumes h: "sshd h = ctl" and ff: "fault e = (\<lambda>_. None)" and io: "in_order e h lc ld (fs w)"
    and op: "op req = InstallSshdDropin"
  shows "wp (install_sshd_dropin e h) (answers e h lc ld w req Response_success Unhealthy) w"
proof -
  let ?p = "components (dropin_path (config h))" and ?t = "render_dropin (trusted_ca_path (config h))"
  from io have rd: "host_ready e h ?p (fs w)" by (simp add: in_order_def Let_def)
  note paths = in_order_paths [OF io]
  show ?thesis
  proof (rule wp_weaken [OF wp_install_ready [OF h ff rd in_order_stable(2) io]], goal_cases)
    case (1 r w')
    show ?case
    proof (cases r)
      case (Ok a)
      with 1 have io': "in_order e h lc ld (fs w')" by simp
      from 1 Ok consider "a = OutcomeOk" "overwritten e ?p (as_bytes ?t) (fs w) (fs w')"
        | bs s where "a = NotModified" "data (fs w') = data (fs w)" "data (fs w) ld = Some bs"
            "from_utf8 bs = Some s" "trim_end s = trim_end ?t"
        using in_order_paths(2) [OF io', of True] by (auto simp: reads_as_def)
      then show ?thesis
      proof cases
        case 1
        then have "files_at lc ld (fs w') = (files_at lc ld (fs w))\<lparr>dropin_file := Some (as_bytes ?t)\<rparr>"
          using paths(2) [of False] io by (auto simp: overwritten_def files_at_def in_order_def Let_def)
        with 1 Ok io' op show ?thesis by (simp add: simulated_def op_step.installed)
      next
        case 2
        then have "dropin_file (files_at lc ld (fs w)) = Some bs" by (simp add: files_at_def)
        from simulated_unchanged [OF io' 2(2) op_step.unmodified [OF op this 2(4,5)]] 2(1) Ok show ?thesis by simp
      qed
    next
      case (Err x)
      with 1 simulated_unchanged [of e h lc ld w' w, OF _ _ op_step.not_installed [OF op, of _ _ x]] show ?thesis by simp
    qed simp
  qed
qed

lemma apply_refines:
  assumes h: "sshd h = ctl" and ff: "fault e = (\<lambda>_. None)" and io: "in_order e h lc ld (fs w)"
    and op: "op req = ApplyTrustedCaKeys" and t: "content req = Some t"
  shows "wp (apply_trusted_ca_keys e h t) (answers e h lc ld w req Response_success RolledBack) w"
proof (cases "TrustedCaKeys_parse t")
  case (Inl x)
  from simulated_unchanged [OF io refl op_step.malformed [OF op t Inl]] Inl show ?thesis
    by (simp add: apply_trusted_ca_keys_def wp_simps)
next
  case (Inr ks)
  let ?p = "components (trusted_ca_path (config h))"
  from io have rd: "host_ready e h ?p (fs w)" by (simp add: in_order_def Let_def)
  note path = in_order_paths(1) [OF io, of False]
  show ?thesis
  proof (rule wp_weaken [OF wp_apply_ready [OF h ff rd Inr in_order_stable(1) io]], goal_cases)
    case (1 r w')
    show ?case
    proof (cases r)
      case (Ok a)
      with 1 have io': "in_order e h lc ld (fs w')" by simp
      from 1 Ok consider "a = Applied" "overwritten e ?p (as_bytes t) (fs w) (fs w')"
        | "a = NotModified" "holds e ?p (as_bytes t) (fs w)" "data (fs w') = data (fs w)" by auto
      then show ?thesis
      proof cases
        case 1
        then have "files_at lc ld (fs w') = (files_at lc ld (fs w))\<lparr>ca_file := Some (as_bytes t)\<rparr>"
          using path io by (auto simp: overwritten_def files_at_def in_order_def Let_def fun_upd_twist)
        with 1 Ok io' op_step.applied [OF op t Inr] show ?thesis by (simp add: simulated_def)
      next
        case 2
        then have "ca_file (files_at lc ld (fs w)) = Some (as_bytes t)"
          using path by (auto simp: holds_def files_at_def)
        from simulated_unchanged [OF io' 2(3) op_step.current [OF op t Inr this]] 2(1) Ok show ?thesis by simp
      qed
    next
      case (Err x)
      with 1 simulated_unchanged [of e h lc ld w' w, OF _ _ op_step.rolled_back [OF op, of x]] show ?thesis by simp
    qed simp
  qed
qed

end

lemma dispatch_refines:
  assumes ff: "fault e = (\<lambda>_. None)" and wt: "waitable sys sc"
    and io: "in_order e (production sys sc cfg) lc ld (fs w)"
  shows "wp (dispatch e (production sys sc cfg) req)
     (\<lambda>r w'. \<exists>resp. r = Ok resp \<and> simulated e (production sys sc cfg) lc ld w req resp w') w"
proof -
  let ?h = "production sys sc cfg"
  note ret = returns_dispatch [OF wt, of e cfg req]
  note refine = directories_refine [OF ff io] system.verify_refines [OF production_sel(1) io]
    system.install_refines [OF production_sel(1) ff io] system.apply_refines [OF production_sel(1) ff io]
  show ?thesis
  proof (cases "op req")
    case Ping
    from simulated_unchanged [OF io refl op_step.ping [OF this]] Ping show ?thesis
      by (simp add: dispatch_def wp_return)
  next
    case EnsureDirectories
    from wp_dispatch_respond [OF refine(1) [OF this]] ret show ?thesis
      by (simp add: dispatch_def EnsureDirectories to_response_def)
  next
    case VerifyState
    from wp_dispatch_respond [OF refine(2) [OF this]] ret show ?thesis
      by (simp add: dispatch_def VerifyState to_response_def)
  next
    case InstallSshdDropin
    from wp_dispatch_respond [OF refine(3) [OF this]] ret show ?thesis
      by (simp add: dispatch_def InstallSshdDropin)
  next
    case ApplyTrustedCaKeys
    show ?thesis
    proof (cases "content req")
      case None
      from simulated_unchanged [OF io refl op_step.missing [OF ApplyTrustedCaKeys None]] None show ?thesis
        by (simp add: dispatch_def ApplyTrustedCaKeys wp_return)
    next
      case (Some t)
      from wp_dispatch_respond [OF refine(4) [OF ApplyTrustedCaKeys Some]] ret show ?thesis
        by (simp add: dispatch_def ApplyTrustedCaKeys Some)
    qed
  qed
qed

section \<open>One connection\<close>

text \<open>What a connection asks for: nothing when its timeouts cannot be set, for it is then closed.\<close>

definition asked :: "codec \<Rightarrow> connection \<Rightarrow> (peer_cred option \<times> request option) list" where
  "asked j c = (if armed c
     then [(peer_of c, case received j c of Inl _ \<Rightarrow> None | Inr q \<Rightarrow> Some q)] else [])"

text \<open>The requests of a whole run, in the order of the turns, up to the one that stops.\<close>

fun requests :: "codec \<Rightarrow> poll list \<Rightarrow> (peer_cred option \<times> request option) list" where
  "requests j [] = []"
| "requests j (p # ps) =
     (if stop p then []
      else (case accept p of Connected c \<Rightarrow> asked j c | _ \<Rightarrow> []) @ requests j ps)"

definition request_of :: "label \<Rightarrow> peer_cred option \<times> request option" where
  "request_of l = (fst l, fst (snd l))"

lemma wp_connection_effect:
  assumes ret: "\<And>req. returns (dispatch e (ops srv) req)"
  shows "wp (with_conn c (handle_connection e j srv)) (\<lambda>r s'.
      \<not> armed c \<and> audit_log s' = audit_log s \<and> host_world s' = host_world s
    \<or> armed c \<and> (\<exists>n en. audit_log s' = audit_log s @ [en] \<and>
        (case received j c of
           Inl _ \<Rightarrow> describes en (peer_of c, None, Response_failure Unhealthy (lit ''protocol error''))
             \<and> host_world s' = delayed n (host_world s)
         | Inr q \<Rightarrow> \<exists>resp w k. evaluate e srv (peer_of c) q (delayed n (host_world s)) = (Ok resp, w)
             \<and> host_world s' = delayed k w \<and> describes en (peer_of c, Some q, resp)))) s"
proof (rule wp_weaken [OF wp_connection_served], goal_cases)
  case (1 r s')
  show ?case
  proof (cases "armed c")
    case True
    with 1 obtain n where n: "served e j srv c n s r s'" by auto
    show ?thesis
    proof (cases "received j c")
      case (Inl x)
      with n True show ?thesis by (auto simp: served_def logged_def)
    next
      case (Inr q)
      obtain resp w where "evaluate e srv (peer_of c) q (delayed n (host_world s)) = (Ok resp, w)"
        by (rule evaluate_ok [OF ret])
      with n Inr True show ?thesis by (fastforce simp: served_def logged_def)
    qed
  qed (use 1 in auto)
qed

section \<open>The server\<close>

text \<open>What the accept loop does between two polls, with the label of the abstract machine it shows.\<close>

inductive connection_step ::
  "env \<Rightarrow> codec \<Rightarrow> helper_server \<Rightarrow> session \<Rightarrow> label list \<Rightarrow> session \<Rightarrow> bool" for e j srv where
  not_served: "\<not> armed c \<Longrightarrow> with_conn c (handle_connection e j srv) s = (r, s') \<Longrightarrow>
    connection_step e j srv s [] s'"
| no_request: "armed c \<Longrightarrow> with_conn c (handle_connection e j srv) s = (r, s') \<Longrightarrow> received j c = Inl x \<Longrightarrow>
    connection_step e j srv s [(peer_of c, None, Response_failure Unhealthy (lit ''protocol error''))] s'"
| answered: "armed c \<Longrightarrow> with_conn c (handle_connection e j srv) s = (r, s') \<Longrightarrow> received j c = Inr req \<Longrightarrow>
    evaluate e srv (peer_of c) req (delayed n (host_world s)) = (Ok resp, w) \<Longrightarrow> host_world s' = delayed k w \<Longrightarrow>
    connection_step e j srv s [(peer_of c, Some req, resp)] s'"
| napped: "sleep n s = (r, s') \<Longrightarrow> connection_step e j srv s [] s'"

inductive_cases connection_step_cases: "connection_step e j srv s ls s'"

lemma connection_steps:
  assumes "\<And>req. returns (dispatch e (ops srv) req)"
    and run: "with_conn c (handle_connection e j srv) s = (r, s')"
  shows "\<exists>ls ens. connection_step e j srv s ls s' \<and> audit_log s' = audit_log s @ ens \<and> list_all2 describes ens ls
    \<and> map request_of ls = asked j c"
proof -
  consider "\<not> armed c" "audit_log s' = audit_log s"
    | en x where "armed c" "audit_log s' = audit_log s @ [en]" "received j c = Inl x"
        "describes en (peer_of c, None, Response_failure Unhealthy (lit ''protocol error''))"
    | n en q resp w k where "armed c" "audit_log s' = audit_log s @ [en]" "received j c = Inr q"
        "evaluate e srv (peer_of c) q (delayed n (host_world s)) = (Ok resp, w)" "host_world s' = delayed k w"
        "describes en (peer_of c, Some q, resp)"
    using wpD [OF wp_connection_effect [OF assms(1)] run] by (fastforce split: sum.splits)
  moreover have one: "list_all2 describes [en] [l]" if "describes en l" for en l using that by simp
  ultimately show ?thesis
  proof cases
    case 1
    with connection_step.not_served [OF 1(1) run] show ?thesis by (intro exI [of _ "[]"]) (simp add: asked_def)
  next
    case (2 en x)
    then have "map request_of [(peer_of c, None, Response_failure Unhealthy (lit ''protocol error''))] = asked j c"
      by (simp add: asked_def request_of_def)
    with connection_step.no_request [OF 2(1) run 2(3)] one [OF 2(4)] 2(2) show ?thesis by blast
  next
    case (3 n en q resp w k)
    then have "map request_of [(peer_of c, Some q, resp)] = asked j c" by (simp add: asked_def request_of_def)
    with connection_step.answered [OF 3(1) run 3(3-5)] one [OF 3(6)] 3(2) show ?thesis by blast
  qed
qed

lemma accept_loop_many:
  assumes ret: "\<And>req. returns (dispatch e (ops srv) req)" and "many (connection_step e j srv) s0 tr0 s"
  shows "wp (accept_loop e j srv polls) (\<lambda>r s'. \<exists>tr ens. many (connection_step e j srv) s0 (tr0 @ tr) s'
     \<and> audit_log s' = audit_log s @ ens \<and> list_all2 describes ens tr \<and> map request_of tr = requests j polls) s"
  using assms(2)
proof (induction polls arbitrary: s tr0)
  case Nil
  then show ?case by (auto simp: wp_def intro!: exI [of _ "[]"])
next
  case (Cons p ps)
  note start = Cons.prems
  let ?turn = "case accept p of
      Connected c \<Rightarrow> handle (with_conn c (handle_connection e j srv)) return (\<lambda>_. return ())
    | WouldBlock \<Rightarrow> sleep ACCEPT_POLL | AcceptError k \<Rightarrow> sleep ACCEPT_POLL"
  let ?asked = "case accept p of Connected c \<Rightarrow> asked j c | _ \<Rightarrow> []"
  have nap: "\<exists>s1 ls ens. sleep n s = (Ok (), s1) \<and> connection_step e j srv s ls s1
      \<and> audit_log s1 = audit_log s @ ens \<and> list_all2 describes ens ls \<and> map request_of ls = []" for n
    by (auto simp: sleep_def intro!: exI [of _ "[]"] connection_step.napped)
  have "\<exists>s1 ls ens. ?turn s = (Ok (), s1) \<and> connection_step e j srv s ls s1
      \<and> audit_log s1 = audit_log s @ ens \<and> list_all2 describes ens ls \<and> map request_of ls = ?asked"
  proof (cases "accept p")
    case (Connected c)
    obtain r s1 where run: "with_conn c (handle_connection e j srv) s = (r, s1)" by fastforce
    with returns_handle_connection [OF ret, of c j] have "\<forall>x. r \<noteq> Abort x"
      by (auto simp: returns_def dest: spec [of _ s])
    with run Connected have "?turn s = (Ok (), s1)" by (cases r) (simp_all add: handle_apply)
    with connection_steps [OF ret run] Connected show ?thesis by fastforce
  qed (use nap in simp_all)
  then obtain s1 ls ens where t: "?turn s = (Ok (), s1)" "connection_step e j srv s ls s1"
    "audit_log s1 = audit_log s @ ens" "list_all2 describes ens ls" "map request_of ls = ?asked" by blast
  from many.next_step [OF start t(2)] have m: "many (connection_step e j srv) s0 (tr0 @ ls) s1" .
  show ?case
  proof (cases "stop p")
    case True
    with start show ?thesis by (auto simp: wp_def intro!: exI [of _ "[]"])
  next
    case False
    have "wp (accept_loop e j srv ps) (\<lambda>r s'. \<exists>tr ens. many (connection_step e j srv) s0 (tr0 @ tr) s'
       \<and> audit_log s' = audit_log s @ ens \<and> list_all2 describes ens tr \<and> map request_of tr = ?asked @ requests j ps) s1"
    proof (rule wp_weaken [OF Cons.IH [OF m]], goal_cases)
      case (1 r s')
      then obtain tr es where "many (connection_step e j srv) s0 ((tr0 @ ls) @ tr) s'"
        "audit_log s' = audit_log s1 @ es" "list_all2 describes es tr" "map request_of tr = requests j ps" by blast
      with t show ?case
        by (intro exI [of _ "ls @ tr"] exI [of _ "ens @ es"]) (simp add: list_all2_appendI)
    qed
    with False t(1) show ?thesis by (simp add: wp_def seq_apply)
  qed
qed

text \<open>The states in which the server is known to work: nothing fails, and the host is in order.\<close>

definition settled ::
  "env \<Rightarrow> system \<Rightarrow> sshd_control_config \<Rightarrow> ops_config \<Rightarrow> loc \<Rightarrow> loc \<Rightarrow> session \<Rightarrow> bool" where
  "settled e sys sc cfg lc ld s \<longleftrightarrow> fault e = (\<lambda>_. None) \<and> waitable sys sc
     \<and> in_order e (production sys sc cfg) lc ld (fs (host_world s))"

definition files_of :: "loc \<Rightarrow> loc \<Rightarrow> session \<Rightarrow> files" where
  "files_of lc ld s = files_at lc ld (fs (host_world s))"

lemma connection_step_simulated:
  assumes "settled e sys sc cfg lc ld s"
    and "connection_step e j (daemon p t g pol (production sys sc cfg)) s ls s'"
  shows "settled e sys sc cfg lc ld s'
    \<and> runs (spec_step (daemon p t g pol (production sys sc cfg)) cfg) (files_of lc ld s) ls (files_of lc ld s')"
proof -
  let ?srv = "daemon p t g pol (production sys sc cfg)"
  from assms(1) have st: "fault e = (\<lambda>_. None)" "waitable sys sc"
    "in_order e (production sys sc cfg) lc ld (fs (host_world s))" by (simp_all add: settled_def)
  have ret: "returns (dispatch e (ops ?srv) req)" for req using returns_dispatch [OF st(2)] by simp
  have same: "settled e sys sc cfg lc ld s' \<and> files_of lc ld s' = files_of lc ld s"
    if "fs (host_world s') = fs (host_world s)"
    using that assms(1) by (simp add: settled_def files_of_def)
  from assms(2) show ?thesis
  proof cases
    case (not_served c r)
    with wpD [OF wp_connection_effect [OF ret] not_served(3)] same show ?thesis by (simp add: runs.rest)
  next
    case (no_request c r x)
    with wpD [OF wp_connection_effect [OF ret] no_request(3)] same show ?thesis
      by (auto intro!: runs_one spec_step.garbled)
  next
    case (answered c r req n resp w k)
    then have ev: "evaluate e ?srv (peer_of c) req (delayed n (host_world s)) = (Ok resp, w)"
      and s': "fs (host_world s') = fs w" by simp_all
    from st(3) have st': "in_order e (production sys sc cfg) lc ld (fs (delayed n (host_world s)))" by simp
    show ?thesis
    proof (cases "authenticated ?srv (peer_of c) req")
      case True
      with ev have "dispatch e (production sys sc cfg) req (delayed n (host_world s)) = (Ok resp, w)"
        by (simp add: evaluate_eq)
      from wpD [OF dispatch_refines [OF st(1,2) st'] this] True answered(1) st s' show ?thesis
        by (auto simp: simulated_def settled_def files_of_def intro: runs_one spec_step.executed)
    next
      case False
      with ev s' have "fs (host_world s') = fs (host_world s)" "resp = Response_failure Unhealthy (refusal ?srv (peer_of c) req)"
        by (auto simp: evaluate_eq)
      with False answered(1) same show ?thesis by (auto intro!: runs_one spec_step.refused)
    qed
  next
    case (napped n r)
    then have "fs (host_world s') = fs (host_world s)" by (auto simp: sleep_def)
    with same napped(1) show ?thesis by (simp add: runs.rest)
  qed
qed

interpretation helper: simulation "settled e sys sc cfg lc ld" "files_of lc ld"
    "connection_step e j (daemon p t g pol (production sys sc cfg))"
    "spec_step (daemon p t g pol (production sys sc cfg)) cfg" for e sys sc cfg lc ld j p t g pol
  by unfold_locales (rule connection_step_simulated)

lemma wp_accept_loop_refines:
  assumes st: "settled e sys sc cfg lc ld s"
  shows "wp (accept_loop e j (daemon p t g pol (production sys sc cfg)) polls)
     (\<lambda>r s'. settled e sys sc cfg lc ld s' \<and> (\<exists>tr ens. audit_log s' = audit_log s @ ens \<and> list_all2 describes ens tr
        \<and> map request_of tr = requests j polls
        \<and> runs (spec_step (daemon p t g pol (production sys sc cfg)) cfg) (files_of lc ld s) tr (files_of lc ld s'))) s"
proof -
  let ?srv = "daemon p t g pol (production sys sc cfg)"
  from st have "returns (dispatch e (ops ?srv) req)" for req by (simp add: settled_def returns_dispatch)
  from accept_loop_many [OF this many.none] show ?thesis
    by (rule wp_weaken) (use helper.sim_many [OF _ st] in fastforce)
qed

section \<open>Properties\<close>

text \<open>The sample host is in order.\<close>

lemma host_in_order:
  assumes "config h = OpsConfig_default"
  shows "in_order host_env h [lit ''etc'', lit ''ssh'', lit ''mayfly'', lit ''trusted_user_ca_keys'']
     [lit ''etc'', lit ''ssh'', lit ''sshd_config.d'', lit ''90-mayfly.conf''] (host_fs c)"
  unfolding in_order_def Let_def assms
  using host_is_ready [OF assms, of c]
  by (simp add: default_paths parent_of_def parent_def tmp_path_def)
    (simp add: resolve_def host_fs_def dir_node_def lit_def)

lemma settled_sample:
  "settled host_env prompt_programs SshdControlConfig_default OpsConfig_default
     [lit ''etc'', lit ''ssh'', lit ''mayfly'', lit ''trusted_user_ca_keys'']
     [lit ''etc'', lit ''ssh'', lit ''sshd_config.d'', lit ''90-mayfly.conf''] fresh_session"
  by (simp add: settled_def waitable_prompt_programs host_in_order fresh_session_def)

lemma sample_files:
  "files_of [lit ''etc'', lit ''ssh'', lit ''mayfly'', lit ''trusted_user_ca_keys'']
     [lit ''etc'', lit ''ssh'', lit ''sshd_config.d'', lit ''90-mayfly.conf''] fresh_session =
   \<lparr>ca_file = None, dropin_file = None, other_files = data (host_fs [])\<rparr>"
  by (auto simp: files_of_def files_at_def fresh_session_def fun_eq_iff data_def host_fs_def lit_def)

text \<open>
  C4 (refinement). The daemon implements its contract. From a host in order, with no failing call
  and programs that can be waited for, for any connections of any peers: serving them is a run of
  the abstract machine of \<open>Host_Spec\<close> on the contents of the two managed files and of all other
  files. The requests of that run are those the peers sent, one for each connection, in the order
  of the turns up to the one that stops, and the audit lines written describe its answers one by
  one. So every change of a file is a step that the contract allows to that peer and request, and
  every answer is the one the contract gives. The host is in order afterwards. As in the code, and
  unlike in \<^verbatim>\<open>docs/ADR-0011\<close>, the machine reads the request of every peer before it looks at the user id.
\<close>

theorem accept_loop_refines:
  assumes "settled e sys sc cfg lc ld s"
  shows "wp (accept_loop e j (daemon p t g pol (production sys sc cfg)) polls)
     (\<lambda>r s'. settled e sys sc cfg lc ld s' \<and> (\<exists>tr ens. audit_log s' = audit_log s @ ens \<and> list_all2 describes ens tr
        \<and> map request_of tr = requests j polls
        \<and> runs (spec_step (daemon p t g pol (production sys sc cfg)) cfg) (files_of lc ld s) tr (files_of lc ld s'))) s"
  by (rule wp_accept_loop_refines [OF assms])

theorem accept_loop_refines_witness:
  "\<exists>lc ld. files_of lc ld fresh_session = \<lparr>ca_file = None, dropin_file = None, other_files = data (host_fs [])\<rparr>
    \<and> wp (accept_loop host_env sample_codec (daemon [] sample_token None PeerPolicy_unenforced
          (production prompt_programs SshdControlConfig_default OpsConfig_default))
        [\<lparr>stop = False, accept = Connected client_conn\<rparr>, \<lparr>stop = True, accept = WouldBlock\<rparr>])
      (\<lambda>r s'. settled host_env prompt_programs SshdControlConfig_default OpsConfig_default lc ld s'
         \<and> (\<exists>tr ens. audit_log s' = audit_log fresh_session @ ens \<and> list_all2 describes ens tr
         \<and> map request_of tr = requests sample_codec
             [\<lparr>stop = False, accept = Connected client_conn\<rparr>, \<lparr>stop = True, accept = WouldBlock\<rparr>]
         \<and> runs (spec_step (daemon [] sample_token None PeerPolicy_unenforced
             (production prompt_programs SshdControlConfig_default OpsConfig_default)) OpsConfig_default)
             (files_of lc ld fresh_session) tr (files_of lc ld s'))) fresh_session"
  by (intro exI conjI, rule sample_files, rule accept_loop_refines [OF settled_sample])

text \<open>
  C6 (invariant). What the audit lines say is what the files are. After any connections, the
  managed key file holds the content of the last key request, of those the peers sent, that was
  answered with a success, or what it held at the start when there was none; every success was
  given to an authenticated request; and no file but the two managed ones has changed.
\<close>

theorem key_file_history:
  assumes "settled e sys sc cfg lc ld s"
  shows "wp (accept_loop e j (daemon p t g pol (production sys sc cfg)) polls)
     (\<lambda>r s'. \<exists>tr ens. audit_log s' = audit_log s @ ens \<and> list_all2 describes ens tr
        \<and> map request_of tr = requests j polls
        \<and> data (fs (host_world s')) lc = last_applied (data (fs (host_world s)) lc) tr
        \<and> list_all (\<lambda>(peer, req, resp). ok resp \<longrightarrow>
             (\<exists>q. req = Some q \<and> authenticated (daemon p t g pol (production sys sc cfg)) peer q)) tr
        \<and> (\<forall>l. l \<noteq> lc \<and> l \<noteq> ld \<longrightarrow> data (fs (host_world s')) l = data (fs (host_world s)) l)) s"
proof (rule wp_weaken [OF wp_accept_loop_refines [OF assms]], goal_cases)
  case (1 r s')
  then obtain tr ens where run: "audit_log s' = audit_log s @ ens" "list_all2 describes ens tr"
    "map request_of tr = requests j polls"
    "runs (spec_step (daemon p t g pol (production sys sc cfg)) cfg) (files_of lc ld s) tr (files_of lc ld s')" by blast
  from runs_ca_file [OF run(4)] runs_others [OF run(4)] have
    "data (fs (host_world s')) lc = last_applied (data (fs (host_world s)) lc) tr"
    "\<forall>l. l \<noteq> lc \<and> l \<noteq> ld \<longrightarrow> data (fs (host_world s')) l = data (fs (host_world s)) l"
    by (auto simp: files_of_def files_at_def fun_eq_iff split: if_splits)
  with run(1,2,3) runs_authenticated [OF run(4)] show ?case by blast
qed

theorem key_file_history_witness:
  "\<exists>lc ld. wp (accept_loop host_env sample_codec (daemon [] sample_token None PeerPolicy_unenforced
          (production prompt_programs SshdControlConfig_default OpsConfig_default))
        [\<lparr>stop = False, accept = Connected client_conn\<rparr>, \<lparr>stop = True, accept = WouldBlock\<rparr>])
      (\<lambda>r s'. \<exists>tr ens. audit_log s' = audit_log fresh_session @ ens \<and> list_all2 describes ens tr
        \<and> map request_of tr = requests sample_codec
            [\<lparr>stop = False, accept = Connected client_conn\<rparr>, \<lparr>stop = True, accept = WouldBlock\<rparr>]
        \<and> data (fs (host_world s')) lc = last_applied (data (fs (host_world fresh_session)) lc) tr
        \<and> list_all (\<lambda>(peer, req, resp). ok resp \<longrightarrow> (\<exists>q. req = Some q
             \<and> authenticated (daemon [] sample_token None PeerPolicy_unenforced
                 (production prompt_programs SshdControlConfig_default OpsConfig_default)) peer q)) tr
        \<and> (\<forall>l. l \<noteq> lc \<and> l \<noteq> ld \<longrightarrow>
             data (fs (host_world s')) l = data (fs (host_world fresh_session)) l)) fresh_session"
  by (intro exI, rule key_file_history [OF settled_sample])

end
