(* ===== verification/Main_Refinement.thy ===== *)
theory Main_Refinement
  imports Host_Refinement
begin

text \<open>
  The whole process implements the machine of \<open>Host_Spec\<close>: start, token, signal handlers, socket, the
  accept loop until the first signal, and the removal of the socket.
\<close>

section \<open>The socket is beside the managed files\<close>

text \<open>
  The socket has a location of its own, in a directory that is there, with nothing or a stale
  socket in it, and no temporary name of the managed directories is that location.
\<close>

definition socket_apart :: "env \<Rightarrow> path \<Rightarrow> helper_ops \<Rightarrow> loc \<Rightarrow> loc \<Rightarrow> loc \<Rightarrow> fs \<Rightarrow> bool" where
  "socket_apart e p h ls lc ld f \<longleftrightarrow>
     resolve e f False p = Inr ls \<and> (\<forall>i. f ls = Some i \<longrightarrow> kind i = Socket) \<and> ls \<noteq> lc \<and> ls \<noteq> ld
   \<and> (\<forall>d. parent p = Some d \<longrightarrow> d = [] \<or> (\<exists>l i. lookup e f True d = Inr (l, i) \<and> l \<noteq> ls))
   \<and> (\<forall>q \<in> {components (trusted_ca_path (config h)), components (dropin_path (config h))}.
        \<forall>dir n lt. parent_of q = Inr dir \<longrightarrow> resolve e f False (tmp_path e n dir) = Inr lt \<longrightarrow> lt \<noteq> ls)"

text \<open>The file system but for the socket.\<close>

definition beside :: "loc \<Rightarrow> fs \<Rightarrow> fs \<Rightarrow> bool" where
  "beside ls f g \<longleftrightarrow> (\<exists>x. g = f(ls := x) \<and> (\<forall>i. x = Some i \<longrightarrow> kind i = Socket))"

lemma beside_refl: "(\<forall>i. f ls = Some i \<longrightarrow> kind i = Socket) \<Longrightarrow> beside ls f f"
  unfolding beside_def by (rule exI [of _ "f ls"]) simp

lemma beside_upd: "beside ls f g \<Longrightarrow> (\<forall>i. x = Some i \<longrightarrow> kind i = Socket) \<Longrightarrow> beside ls f (g(ls := x))"
  by (auto simp: beside_def)

lemma socket_plain: "(\<forall>i. f l = Some i \<longrightarrow> kind i = Socket) \<Longrightarrow> plain f l"
  by (auto simp: plain_def dir_at_def link_at_def split: option.splits)

lemma beside_at:
  assumes "beside ls f g" and "\<forall>i. f ls = Some i \<longrightarrow> kind i = Socket"
  shows "plain g ls" "\<forall>i. g ls = Some i \<longrightarrow> kind i = Socket" "data g = data f"
    "resolve e g fl q = Inr k \<longleftrightarrow> resolve e f fl q = Inr k" "k \<noteq> ls \<Longrightarrow> g k = f k"
proof -
  from assms(1) obtain x where g: "g = f(ls := x)" and x: "\<forall>i. x = Some i \<longrightarrow> kind i = Socket"
    by (auto simp: beside_def)
  show s: "\<forall>i. g ls = Some i \<longrightarrow> kind i = Socket" using g x by simp
  show p: "plain g ls" using s by (rule socket_plain)
  show "resolve e g fl q = Inr k \<longleftrightarrow> resolve e f fl q = Inr k"
    unfolding g by (rule resolve_plain_upd) (use assms(2) p g in \<open>auto intro: socket_plain\<close>)
  show "data g = data f"
    using assms(2) x g by (auto simp: fun_eq_iff data_def split: option.splits)
  show "k \<noteq> ls \<Longrightarrow> g k = f k" using g by simp
qed

lemma in_order_beside:
  assumes io: "in_order e h lc ld f" and ap: "socket_apart e p h ls lc ld f" and b: "beside ls f g"
  shows "in_order e h lc ld g"
proof -
  from ap have sock: "\<forall>i. f ls = Some i \<longrightarrow> kind i = Socket" by (simp add: socket_apart_def)
  note at = beside_at [OF b sock]
  have "dir_at g k \<longleftrightarrow> dir_at f k" for k
    using at(1) socket_plain [of f ls] sock at(5) [of k]
    by (cases "k = ls") (simp_all add: plain_def, simp add: dir_at_def)
  then have dir: "dir_ready e d g \<longleftrightarrow> dir_ready e d f" for d
    by (simp add: dir_ready_def at(4))
  have "ready e q g" if "q \<in> {components (trusted_ca_path (config h)), components (dropin_path (config h))}"
      "ready e q f" "resolve e f False q = Inr l" "l \<noteq> ls" for q l
  proof -
    from that(2,3) obtain d where d: "parent_of q = Inr d" "dir_ready e d f" "f l = None \<or> (\<exists>x. data f l = Some x)"
        "\<forall>n. \<exists>lt. resolve e f False (tmp_path e n d) = Inr lt \<and> f lt = None \<and> lt \<noteq> l" by (auto simp: ready_def)
    from ap that(1) d(1) have "resolve e f False (tmp_path e n d) = Inr lt \<Longrightarrow> lt \<noteq> ls" for n lt
      unfolding socket_apart_def by blast
    with d(4) at(5) have "\<forall>n. \<exists>lt. resolve e f False (tmp_path e n d) = Inr lt \<and> g lt = None \<and> lt \<noteq> l" by metis
    with d(1-3) that(3,4) at(3,5) show ?thesis
      unfolding ready_def at(4) dir by (intro exI [of _ d] exI [of _ l]) auto
  qed
  with io ap show ?thesis unfolding in_order_def Let_def host_ready_def at(4) dir socket_apart_def by auto
qed

section \<open>Start and end of the server\<close>

lemma beside_lookup:
  assumes "socket_apart e p h ls lc ld f" and "beside ls f g" and "lookup e g fl p = Inr (l, i)"
  shows "l = ls" and "kind i = Socket" and "(\<forall>i'. x = Some i' \<longrightarrow> kind i' = kind i) \<Longrightarrow> beside ls f (g(l := x))"
proof -
  from assms(1) have sock: "\<forall>i. f ls = Some i \<longrightarrow> kind i = Socket" and p: "resolve e f False p = Inr ls"
    by (simp_all add: socket_apart_def)
  note at = beside_at [OF assms(2) sock]
  from p at(4) have "resolve e g False p = Inr ls" by simp
  moreover from this at(1) have "resolve e g True p = Inr ls" by (auto simp: plain_def intro: resolve_follow)
  ultimately show l: "l = ls" using assms(3) by (cases fl) (auto simp: lookup_Inr)
  with assms(3) at(2) show i: "kind i = Socket" by (auto simp: lookup_Inr)
  show "beside ls f (g(l := x))" if "\<forall>i'. x = Some i' \<longrightarrow> kind i' = kind i"
    using l i that assms(2) by (auto intro: beside_upd)
qed

text \<open>The calls on the socket's path touch nothing else.\<close>

lemma beside_calls:
  assumes ap: "socket_apart e p h ls lc ld f"
  shows "stays (beside ls f) (fs_remove_file e p)" "stays (beside ls f) (bind_socket e p)"
    "stays (beside ls f) (fs_chown_group e p gr)" "stays (beside ls f) (fs_set_permissions e p m)"
proof -
  note upd = beside_lookup(3) [OF ap]
  from ap have sock: "\<forall>i. f ls = Some i \<longrightarrow> kind i = Socket" and p: "resolve e f False p = Inr ls"
    by (simp_all add: socket_apart_def)
  show "stays (beside ls f) (fs_remove_file e p)"
    unfolding fs_remove_file_def by (rule stays_change) (auto split: sum.splits if_splits intro: upd)
  have "resolve e g False p = Inr ls" if "beside ls f g" for g using p beside_at(4) [OF that sock] by simp
  then show "stays (beside ls f) (bind_socket e p)"
    unfolding bind_socket_def by (intro stays_change) (auto split: if_splits elim!: beside_upd)
  have at: "beside ls f (g(l \<mapsto> j))" if "beside ls f g" "lookup e g True p = Inr (l, i)" "kind j = kind i" for g l i j
    by (rule upd [OF that(1,2)]) (simp add: that(3))
  show "stays (beside ls f) (fs_chown_group e p gr)"
    unfolding fs_chown_group_def by (rule stays_change) (auto split: sum.splits elim: at)
  have perm: "beside ls f (g(l \<mapsto> j\<lparr>perm := m\<rparr>))" if "beside ls f g" "lookup e g True p = Inr (l, i)" "g l = Some j" for g l i j
    using that(3) at [OF that(1,2), of "j\<lparr>perm := m\<rparr>"] that(2) by (simp add: lookup_Inr)
  show "stays (beside ls f) (fs_set_permissions e p m)"
    unfolding fs_set_permissions_def set_mode_def
    by (intro stays_change) (auto split: sum.splits option.splits elim: perm)
qed

lemma beside_parent:
  assumes nf: "fault e = (\<lambda>_. None)" and ap: "socket_apart e p h ls lc ld f" and d: "parent p = Some d"
  shows "stays (beside ls f) (if d = [] then return ()
      else bind (path_exists e d) (\<lambda>b. if b then return () else map_err Io (create_dir_all e d)))"
proof -
  have "\<exists>i. lookup e g True d = Inr i" if "beside ls f g" "d \<noteq> []" for g
  proof -
    from ap d that(2) obtain l i where l: "lookup e f True d = Inr (l, i)" "l \<noteq> ls"
      and sock: "\<forall>i. f ls = Some i \<longrightarrow> kind i = Socket" unfolding socket_apart_def by blast
    then have "lookup e g True d = Inr (l, i)" using beside_at [OF that(1) sock] by (simp add: lookup_Inr)
    then show ?thesis by blast
  qed
  then show ?thesis
    by (intro staysI) (use nf in \<open>force simp: path_exists_def metadata_def wp_simps map_sum_def split: sum.splits\<close>)
qed

lemma beside_bind_listener:
  assumes nf: "fault e = (\<lambda>_. None)" and ap: "socket_apart e (components (socket_path srv)) h ls lc ld f"
  shows "stays (beside ls f) (bind_listener e srv)"
  unfolding bind_listener_def set_socket_mode_def Let_def
  by (cases "parent (components (socket_path srv))")
    (simp_all only: option.case, (intro stays_intros beside_calls [OF ap] beside_parent [OF nf ap] | assumption)+)

text \<open>With no failing call the listener comes up.\<close>

lemma socket_resolves:
  assumes "socket_apart e p h ls lc ld f"
  shows "lookup e (f(ls := None)) fl p = Inl NotFound" "resolve e (f(ls := None)) False p = Inr ls"
    "kind i = Socket \<Longrightarrow> lookup e (f(ls \<mapsto> i)) fl p = Inr (ls, i)"
    "f ls = None \<or> (\<exists>i. f ls = Some i \<and> kind i = Socket \<and> lookup e f False p = Inr (ls, i))"
proof -
  from assms have sock: "\<forall>i. f ls = Some i \<longrightarrow> kind i = Socket" and p: "resolve e f False p = Inr ls"
    by (simp_all add: socket_apart_def)
  have at: "resolve e (f(ls := x)) fl p = Inr ls" if "\<forall>i. x = Some i \<longrightarrow> kind i = Socket" for x fl
  proof -
    have "beside ls f (f(ls := x))" using that by (auto simp: beside_def)
    note b = beside_at [OF this sock]
    from p b(4) have "resolve e (f(ls := x)) False p = Inr ls" by simp
    with b(1) show ?thesis by (cases fl) (auto simp: plain_def intro: resolve_follow)
  qed
  from at [of None] show "lookup e (f(ls := None)) fl p = Inl NotFound" "resolve e (f(ls := None)) False p = Inr ls"
    by (simp_all add: lookup_def)
  from at [of "Some i"] show "kind i = Socket \<Longrightarrow> lookup e (f(ls \<mapsto> i)) fl p = Inr (ls, i)" by (simp add: lookup_Inr)
  from sock p show "f ls = None \<or> (\<exists>i. f ls = Some i \<and> kind i = Socket \<and> lookup e f False p = Inr (ls, i))"
    by (cases "f ls") (auto simp: lookup_Inr)
qed

lemma bind_listener_starts:
  assumes nf: "fault e = (\<lambda>_. None)" and ap: "socket_apart e (components (socket_path srv)) h ls lc ld (fs w)"
  shows "wp (bind_listener e srv) (\<lambda>r w'. r = Ok ()) w"
proof -
  let ?p = "components (socket_path srv)"
  define f where "f = fs w"
  note at = socket_resolves [OF ap, folded f_def]
  have parents: "wp (case parent ?p of None \<Rightarrow> return () | Some d \<Rightarrow> if d = [] then return ()
      else bind (path_exists e d) (\<lambda>b. if b then return () else map_err Io (create_dir_all e d)))
      (\<lambda>r w1. r = Ok () \<and> fs w1 = f) w"
    using ap nf by (auto simp: socket_apart_def path_exists_def metadata_def wp_simps f_def split: option.splits)
  have stale: "wp (handle (symlink_metadata e ?p)
        (\<lambda>i. if kind i = Socket then map_err Io (fs_remove_file e ?p) else throw InvalidPath)
        (\<lambda>k. if k = NotFound then return () else throw (Io k))) (\<lambda>r w2. r = Ok () \<and> fs w2 = f(ls := None)) w1"
    if "fs w1 = f" for w1
    using at(4)
  proof
    assume n: "f ls = None"
    then have "f(ls := None) = f" by auto
    with at(1) [of False] show ?thesis using nf that by (simp add: symlink_metadata_def wp_simps)
  next
    assume "\<exists>i. f ls = Some i \<and> kind i = Socket \<and> lookup e f False ?p = Inr (ls, i)"
    then show ?thesis using nf that by (auto simp: symlink_metadata_def fs_remove_file_def wp_simps)
  qed
  let ?up = "\<lambda>r w3. r = Ok () \<and> (\<exists>i. kind i = Socket \<and> fs w3 = f(ls \<mapsto> i))"
  have new: "wp (map_err Io (bind_socket e ?p)) ?up w2" if "fs w2 = f(ls := None)" for w2
    using that nf at(2)
    by (simp add: bind_socket_def wp_simps,
        intro exI [of _ "\<lparr>kind = Socket, perm = 0x1FF AND NOT (umask e), owner = euid e, group = egid e\<rparr>"]) simp
  have own: "wp (case socket_gid srv of None \<Rightarrow> return () | Some g \<Rightarrow> map_err Io (fs_chown_group e ?p g)) ?up w3"
    if "kind i = Socket" "fs w3 = f(ls \<mapsto> i)" for w3 i
  proof (cases "socket_gid srv")
    case None
    with that show ?thesis by (auto simp: wp_simps)
  next
    case (Some g)
    have "\<exists>i'. kind i' = Socket \<and> f(ls \<mapsto> i\<lparr>group := g\<rparr>) = f(ls \<mapsto> i')"
      using that(1) by (intro exI [of _ "i\<lparr>group := g\<rparr>"]) simp
    with Some that nf at(3) [of i True] show ?thesis by (simp add: fs_chown_group_def wp_simps)
  qed
  have mode: "wp (set_socket_mode e ?p) (\<lambda>r w5. r = Ok ()) w4" if "kind i = Socket" "fs w4 = f(ls \<mapsto> i)" for w4 i
    using that nf at(3) [of i True] by (simp add: set_socket_mode_def fs_set_permissions_def set_mode_def wp_simps)
  show ?thesis
    unfolding bind_listener_def Let_def
  proof (rule wp_seqI [OF parents], goal_cases)
    case (1 x1 w1)
    then have "fs w1 = f" by simp
    from stale [OF this] show ?case
    proof (rule wp_seqI, goal_cases)
      case (1 x2 w2)
      then have "fs w2 = f(ls := None)" by simp
      from new [OF this] show ?case
      proof (rule wp_seqI, goal_cases)
        case (1 x3 w3)
        then obtain i where "kind i = Socket" "fs w3 = f(ls \<mapsto> i)" by blast
        from own [OF this] show ?case by (rule wp_seqI) (blast intro: mode, simp_all)
      qed simp_all
    qed simp_all
  qed simp_all
qed

lemma data_remove: "data g l = None \<Longrightarrow> data (g(l := None)) = data g"
  by (auto simp: fun_eq_iff data_def)

lemma wp_remove_socket:
  assumes "fault e = (\<lambda>_. None)" and "resolve e (fs (host_world s)) False p = Inr ls"
    and "data (fs (host_world s)) ls = None"
  shows "wp (in_world (handle (fs_remove_file e p) return (\<lambda>_. return ())))
     (\<lambda>r s'. audit_log s' = audit_log s \<and> files_of lc ld s' = files_of lc ld s \<and> (\<forall>x. r \<noteq> Err x)) s"
  unfolding wp_in_world files_of_def
  by (auto simp: fs_remove_file_def wp_simps assms lookup_Inr split: sum.splits intro!: files_at_same data_remove)

text \<open>What the process has done so far, as a run of the abstract machine.\<close>

definition ran_as :: "helper_server \<Rightarrow> ops_config \<Rightarrow> loc \<Rightarrow> loc \<Rightarrow> session \<Rightarrow> label list \<Rightarrow> session \<Rightarrow> bool" where
  "ran_as srv cfg lc ld s tr s' \<longleftrightarrow> (\<exists>ens. audit_log s' = audit_log s @ ens \<and> list_all2 describes ens tr)
     \<and> runs (spec_step srv cfg) (files_of lc ld s) tr (files_of lc ld s')"

lemma ran_as_cong:
  "audit_log s1 = audit_log s \<Longrightarrow> files_of lc ld s1 = files_of lc ld s \<Longrightarrow>
     audit_log s1' = audit_log s' \<Longrightarrow> files_of lc ld s1' = files_of lc ld s' \<Longrightarrow>
     ran_as srv cfg lc ld s tr s' \<longleftrightarrow> ran_as srv cfg lc ld s1 tr s1'"
  by (simp add: ran_as_def)

lemma ran_as_nothing:
  "audit_log s' = audit_log s \<Longrightarrow> files_of lc ld s' = files_of lc ld s \<Longrightarrow> ran_as srv cfg lc ld s [] s'"
  by (simp add: ran_as_def runs.rest)

text \<open>The loop and the removal of the socket after it.\<close>

lemma accept_loop_no_error: "wp (accept_loop e j srv polls) (\<lambda>r s'. \<forall>x. r \<noteq> Err x) s"
proof (induction polls arbitrary: s)
  case (Cons p ps)
  have "wp (case accept p of
      Connected c \<Rightarrow> handle (with_conn c (handle_connection e j srv)) return (\<lambda>_. return ())
    | WouldBlock \<Rightarrow> sleep ACCEPT_POLL | AcceptError k \<Rightarrow> sleep ACCEPT_POLL) (\<lambda>r s'. \<forall>x. r \<noteq> Err x) s"
    by (cases "accept p") (auto simp: wp_def sleep_def handle_apply split: prod.splits ret.splits)
  then have "wp (seq (case accept p of
      Connected c \<Rightarrow> handle (with_conn c (handle_connection e j srv)) return (\<lambda>_. return ())
    | WouldBlock \<Rightarrow> sleep ACCEPT_POLL | AcceptError k \<Rightarrow> sleep ACCEPT_POLL) (accept_loop e j srv ps)) (\<lambda>r s'. \<forall>x. r \<noteq> Err x) s"
    by (rule wp_seqI) (auto intro: Cons.IH)
  then show ?case by (simp add: wp_return)
qed (simp add: wp_def)

lemma wp_serve_and_remove:
  assumes st: "settled e sys sc cfg lc ld s"
    and ls: "resolve e (fs (host_world s)) False (components p) = Inr ls" "data (fs (host_world s)) ls = None" "ls \<noteq> lc" "ls \<noteq> ld"
  shows "wp (seq (accept_loop e j (daemon p t g pol (production sys sc cfg)) polls)
       (in_world (handle (fs_remove_file e (components p)) return (\<lambda>_. return ()))))
     (\<lambda>r s'. (\<forall>x. r \<noteq> Err x) \<and> (\<exists>tr. map request_of tr = requests j polls
        \<and> ran_as (daemon p t g pol (production sys sc cfg)) cfg lc ld s tr s')) s" (is "wp _ ?Q s")
proof -
  let ?srv = "daemon p t g pol (production sys sc cfg)"
  from st have nf: "fault e = (\<lambda>_. None)" by (simp add: settled_def)
  have "wp (accept_loop e j ?srv polls) (\<lambda>r s3. only_managed e cfg (fs (host_world s)) (fs (host_world s3))) s"
    using managed_accept_loop [of e cfg j p t g pol sys sc polls]
    by (auto simp: always_def on_host_def managed_step_def wp_fst_snd)
  from wp_conj [OF wp_conj [OF accept_loop_no_error wp_accept_loop_refines [OF st]] this] show ?thesis
    unfolding wp_seq
  proof (rule wp_weaken, goal_cases)
    case (1 r s3)
    then obtain tr where tr: "map request_of tr = requests j polls" "ran_as ?srv cfg lc ld s tr s3"
      unfolding ran_as_def by blast
    from 1 have "fs_ext (fs (host_world s)) (fs (host_world s3))" by (simp add: only_managed_def)
    with ls(1) have "resolve e (fs (host_world s3)) False (components p) = Inr ls" by (rule resolve_ext)
    moreover from tr(2) have "data (fs (host_world s3)) ls = None"
      using ls(2-4) by (auto simp: ran_as_def files_of_def files_at_def dest!: runs_others fun_cong [where x = ls])
    ultimately have "wp (in_world (handle (fs_remove_file e (components p)) return (\<lambda>_. return ()))) ?Q s3"
      by (rule wp_weaken [OF wp_remove_socket [OF nf]]) (use tr ran_as_cong [of s s] in blast)
    with 1 tr show ?case by (auto split: ret.split)
  qed
qed

lemma wp_server_run_refines:
  assumes st: "settled e sys sc cfg lc ld s"
    and ap: "socket_apart e (components p) (production sys sc cfg) ls lc ld (fs (host_world s))"
  shows "wp (server_run e j (daemon p t g pol (production sys sc cfg)) polls)
     (\<lambda>r s'. (\<forall>x. r \<noteq> Err x) \<and> (\<exists>tr. map request_of tr = requests j polls
        \<and> ran_as (daemon p t g pol (production sys sc cfg)) cfg lc ld s tr s')) s"
    (is "wp _ ?Q s")
proof -
  let ?srv = "daemon p t g pol (production sys sc cfg)" and ?f = "fs (host_world s)"
  define near where "near = (\<lambda>s1 :: session. audit_log s1 = audit_log s \<and> beside ls ?f (fs (host_world s1)))"
  from st have nf: "fault e = (\<lambda>_. None)" by (simp add: settled_def)
  from ap have ap': "socket_apart e (components (socket_path ?srv)) (production sys sc cfg) ls lc ld ?f"
    and sock: "\<forall>i. ?f ls = Some i \<longrightarrow> kind i = Socket" by (simp_all add: socket_apart_def)
  have same: "audit_log s1 = audit_log s" "files_of lc ld s1 = files_of lc ld s" if "near s1" for s1
    using that beside_at(3) [of ls ?f "fs (host_world s1)"] sock
    by (simp_all add: near_def files_of_def files_at_def)
  have A: "wp (in_world (bind_listener e ?srv)) (\<lambda>r s1. near s1 \<and> r = Ok ()) s"
    unfolding wp_in_world
    by (rule wp_weaken [OF wp_conj [OF staysD [OF beside_bind_listener [OF nf ap'] beside_refl [of ?f ls]]
          bind_listener_starts [OF nf ap']]]) (simp_all add: sock near_def)
  have B: "wp (in_world (map_err Io (set_nonblocking e))) (\<lambda>r s2. near s2 \<and> r = Ok ()) s1" if "near s1" for s1
    unfolding wp_in_world set_nonblocking_def using that by (simp add: wp_simps nf near_def)
  have C: "wp (seq (accept_loop e j ?srv polls)
      (in_world (handle (fs_remove_file e (components p)) return (\<lambda>_. return ())))) ?Q s2" if "near s2" for s2
  proof -
    from that have b: "beside ls ?f (fs (host_world s2))" by (simp add: near_def)
    note at = beside_at [OF b sock]
    have "settled e sys sc cfg lc ld s2" using st in_order_beside [OF _ ap b] by (simp add: settled_def)
    moreover have "data (fs (host_world s2)) ls = None" using at(2) by (auto simp: data_def split: option.splits)
    moreover have "resolve e (fs (host_world s2)) False (components p) = Inr ls" "ls \<noteq> lc" "ls \<noteq> ld"
      using ap by (simp_all add: at(4) socket_apart_def)
    ultimately show ?thesis
      by (intro wp_weaken [OF wp_serve_and_remove]) (use ran_as_cong [OF same [OF that]] in blast)+
  qed
  show ?thesis
    unfolding server_run_def daemon_sel
    by (rule wp_seqI [OF A], rule wp_seqI [OF B]) (auto intro: C)
qed

section \<open>The process\<close>

text \<open>The requests of a run of the process: those of the peers that connect before the first signal.\<close>

fun turn_requests :: "codec \<Rightarrow> turn list \<Rightarrow> (peer_cred option \<times> request option) list" where
  "turn_requests j [] = []"
| "turn_requests j (t # ts) =
     (if SIGTERM \<in> set (signals t) \<or> SIGINT \<in> set (signals t) then []
      else (case arrival t of Connected c \<Rightarrow> asked j c | _ \<Rightarrow> []) @ turn_requests j ts)"

lemma requests_watch:
  assumes "sets_registered hook"
    and "\<And>sig. (sig, r) \<in> set (registered pr) \<longleftrightarrow> sig = SIGTERM \<or> sig = SIGINT" and "\<not> atomics pr r"
  shows "requests j (watch hook r pr turns) = turn_requests j turns"
  using assms(2,3)
proof (induction turns arbitrary: pr)
  case (Cons t ts)
  let ?pr = "fold (deliver hook) (signals t) pr"
  have "atomics ?pr r \<longleftrightarrow> SIGTERM \<in> set (signals t) \<or> SIGINT \<in> set (signals t)"
    using Cons.prems by (auto simp: delivers_iff [OF assms(1)])
  with Cons.IH [of ?pr] Cons.prems show ?case by (simp add: Let_def)
qed simp

text \<open>
  The start: the process runs as root, the token can be loaded and both handlers can be
  installed. What comes after, the socket, is covered by the conditions on the host.
\<close>

definition start_token :: "vars \<Rightarrow> env \<Rightarrow> (nat \<Rightarrow> io_kind + unit) \<Rightarrow> world \<Rightarrow> rstr option" where
  "start_token vars e reg w =
     (if effective_uid e = 0 \<and> reg SIGTERM = Inr () \<and> reg SIGINT = Inr ()
      then case fst (load_token vars e w) of Ok tok \<Rightarrow> Some tok | _ \<Rightarrow> None
      else None)"

lemma installed_iff: "fst (install_signal_handlers reg d pr) = Inr () \<longleftrightarrow> reg SIGTERM = Inr () \<and> reg SIGINT = Inr ()"
  by (simp add: install_signal_handlers_def flag_register_def Let_def split: sum.splits)

text \<open>A process that has only started: no connection, the files as they were.\<close>

definition started :: "session \<Rightarrow> session \<Rightarrow> bool" where
  "started s s' \<longleftrightarrow> audit_log s' = audit_log s \<and> fs (host_world s') = fs (host_world s)"

lemma started_refl: "started s s"
  by (simp add: started_def)

lemma wp_load_token_runs:
  "wp (in_world (load_token vars e)) (\<lambda>r s'. started s s' \<and> r = fst (load_token vars e (host_world s)) \<and> (\<forall>x. r \<noteq> Abort x)) s"
  unfolding wp_in_world using wp_load_token [of vars e "host_world s"]
  by (auto simp: wp_fst_snd started_def split: ret.splits)

lemma wp_bin_run_refines:
  fixes vars :: vars and sys :: system
  defines "sc \<equiv> SshdControlConfig_from_env (env_var vars)" and "cfg \<equiv> OpsConfig_from_env (env_var vars)"
  assumes hook: "sets_registered hook" and st: "settled e sys sc cfg lc ld s"
    and ap: "socket_apart e (components (bin_socket_path vars)) (production sys sc cfg) ls lc ld (fs (host_world s))"
  shows "wp (bin_run vars e sys j reg hook turns)
     (\<lambda>r s'. case start_token vars e reg (host_world s) of
        None \<Rightarrow> (\<exists>x. r = Err x) \<and> started s s'
      | Some tok \<Rightarrow> (\<forall>x. r \<noteq> Err x) \<and> (\<exists>tr. map request_of tr = turn_requests j turns
          \<and> ran_as (bin_server vars sys tok) cfg lc ld s tr s')) s"
    (is "wp _ ?Q s")
proof -
  obtain d pr where d: "Shutdown_new process_start = (d, pr)" by fastforce
  obtain r pr' where r: "install_signal_handlers reg d pr = (r, pr')" by fastforce
  let ?polls = "watch hook (Shutdown_flag d) pr' turns"
  have srv: "wp (server_run e j (bin_server vars sys tok) ?polls)
      (\<lambda>r s'. (\<forall>x. r \<noteq> Err x) \<and> (\<exists>tr. map request_of tr = turn_requests j turns
          \<and> ran_as (bin_server vars sys tok) cfg lc ld s tr s')) s1" if "started s s1" "r = Inr ()" for tok s1
  proof -
    have req: "requests j ?polls = turn_requests j turns"
      using fresh_flag [OF d] r that(2)
      by (intro requests_watch [OF hook]) (auto simp: Shutdown_flag_def is_requested_def)
    from st that(1) have st1: "settled e sys sc cfg lc ld s1" by (simp add: settled_def started_def)
    from ap that(1) have ap1: "socket_apart e (components (bin_socket_path vars)) (production sys sc cfg) ls lc ld
        (fs (host_world s1))" by (simp add: started_def)
    have "files_of lc ld s1 = files_of lc ld s" "audit_log s1 = audit_log s"
      using that(1) by (simp_all add: started_def files_of_def)
    with wp_server_run_refines [OF st1 ap1, of j tok "bin_socket_gid vars" "bin_peer_policy vars" ?polls] show ?thesis
      unfolding bin_server_daemon req sc_def [symmetric] cfg_def [symmetric] by (elim wp_weaken) (auto simp: ran_as_def)
  qed
  have handlers: "r = Inr () \<longleftrightarrow> reg SIGTERM = Inr () \<and> reg SIGINT = Inr ()"
    using installed_iff [of reg d pr] r by simp
  show ?thesis
  proof (cases "effective_uid e = 0")
    case True
    then have root: "seq (in_world (validate_root e)) m = m" for m :: "unit serving"
      by (auto simp: validate_root_def in_world_def act_simps fun_eq_iff)
    show ?thesis
      unfolding bin_run_def root
    proof (rule wp_bindI [OF wp_load_token_runs], goal_cases)
      case (1 tok s2)
      show ?case
      proof (cases r)
        case (Inl x)
        then have "start_token vars e reg (host_world s) = None" using handlers by (auto simp: start_token_def)
        with 1 Inl show ?thesis by (simp add: d r Let_def wp_seq wp_throw)
      next
        case (Inr u)
        then have "r = Inr ()" by simp
        with 1 True handlers have "start_token vars e reg (host_world s) = Some tok"
          by (auto simp: start_token_def split: ret.splits)
        with srv [of s2 tok] 1 \<open>r = Inr ()\<close> show ?thesis by (simp add: d r Let_def wp_seq wp_return)
      qed
    qed (auto simp: start_token_def split: ret.splits option.splits)
  next
    case False
    then have "start_token vars e reg (host_world s) = None" by (simp add: start_token_def)
    with False show ?thesis
      by (simp add: bin_run_def validate_root_def wp_seq wp_in_world wp_throw started_refl)
  qed
qed

text \<open>
  C3 (refinement). The whole process implements the machine. From a host in order, with no failing call,
  programs that can be waited for and a socket beside the managed files: when the process is root,
  the token loads and the handlers install, then \<^verbatim>\<open>main\<close> does not fail, and whatever it does is a
  run of the abstract machine whose server has that token. The requests of that run are those of
  the peers that connect before the first signal, in their order, and the audit lines describe its
  answers one by one. In every other case \<^verbatim>\<open>main\<close> fails without an audit line or a change to a
  file. Binding and removing the socket, directories and temporary files are no part of it. The
  machine reads a peer's request before its user id is looked at, as the code does.
\<close>

theorem main_refines:
  assumes "sets_registered hook"
    and "settled e sys (SshdControlConfig_from_env (env_var vars)) (OpsConfig_from_env (env_var vars)) lc ld s"
    and "socket_apart e (components (bin_socket_path vars))
          (production sys (SshdControlConfig_from_env (env_var vars)) (OpsConfig_from_env (env_var vars)))
          ls lc ld (fs (host_world s))"
  shows "wp (main vars e sys j reg hook turns)
     (\<lambda>r s'. case start_token vars e reg (host_world s) of
        None \<Rightarrow> r = Ok FAILURE \<and> audit_log s' = audit_log s \<and> files_of lc ld s' = files_of lc ld s
      | Some tok \<Rightarrow> r \<noteq> Ok FAILURE \<and> (\<exists>tr ens. audit_log s' = audit_log s @ ens \<and> list_all2 describes ens tr
          \<and> map request_of tr = turn_requests j turns
          \<and> runs (spec_step (bin_server vars sys tok) (OpsConfig_from_env (env_var vars)))
              (files_of lc ld s) tr (files_of lc ld s'))) s"
  unfolding main_def wp_handle
  by (rule wp_weaken [OF wp_bin_run_refines [OF assms]])
    (auto simp: wp_return ran_as_def started_def files_of_def split: ret.splits option.splits)

text \<open>A configuration with a socket in a directory of the sample host.\<close>

definition sample_vars :: vars where
  "sample_vars = [lit ''MAYFLY_HELPER_SOCKET_PATH'' \<mapsto> as_bytes (lit ''/run/h'')]"

lemma sample_vars_paths:
  "OpsConfig_from_env (env_var sample_vars) = OpsConfig_default"
  "SshdControlConfig_from_env (env_var sample_vars) = SshdControlConfig_default"
  "components (bin_socket_path sample_vars) = [RootDir, Normal (lit ''run''), Normal (lit ''h'')]"
proof -
  have "env_var sample_vars n = None" if "n \<noteq> lit ''MAYFLY_HELPER_SOCKET_PATH''" for n
    using that by (simp add: env_var_def sample_vars_def)
  then show "OpsConfig_from_env (env_var sample_vars) = OpsConfig_default"
    "SshdControlConfig_from_env (env_var sample_vars) = SshdControlConfig_default"
    by (simp_all add: OpsConfig_from_env_def SshdControlConfig_from_env_def lit_def)
  have "env_var sample_vars (lit ''MAYFLY_HELPER_SOCKET_PATH'') = Some (lit ''/run/h'')"
    by (simp add: env_var_def sample_vars_def lit_def is_str_def scalar_def)
  then show "components (bin_socket_path sample_vars) = [RootDir, Normal (lit ''run''), Normal (lit ''h'')]"
    by (simp add: bin_socket_path_def components_def lit_def starts_with_def List.map_filter_def piece_comp_def)
qed

lemma sample_start: "start_token sample_vars host_env (\<lambda>_. Inr ()) (host_world fresh_session) = Some sample_token"
proof -
  have "env_var sample_vars (lit ''MAYFLY_HELPER_TOKEN_PATH'') = None"
    by (simp add: env_var_def sample_vars_def lit_def)
  then have p: "components (bin_token_path sample_vars) = [RootDir, Normal (lit ''etc''), Normal (lit ''mayfly-agent''), Normal (lit ''helper.token'')]"
    by (simp add: bin_token_path_def DEFAULT_TOKEN_PATH_def components_def lit_def starts_with_def List.map_filter_def piece_comp_def)
  have look: "lookup host_env (host_fs []) fl (components (bin_token_path sample_vars)) =
      Inr ([lit ''etc'', lit ''mayfly-agent'', lit ''helper.token''], token_node)" for fl
    unfolding p by (cases fl; simp add: lookup_def resolve_def host_fs_def dir_node_def token_node_def file_node_def lit_def)
  have "from_utf8 (as_bytes (sample_token @ [10])) = Some (sample_token @ [10])"
    by (simp add: sample_token_def lit_def is_str_def scalar_def)
  moreover have "trim (sample_token @ [10]) = sample_token" "str_len sample_token = 32" "sample_token \<noteq> []"
      "\<exists>x \<in> set sample_token. \<not> is_whitespace x"
    by (simp_all add: sample_token_def str_eval str_len_def)
  ultimately have "fst (load_token sample_vars host_env (host [])) = Ok sample_token"
    by (simp add: load_token_def Let_def act_simps ensure_not_symlink_def is_symlink_def ensure_owned_by_root_def
        validate_owner_def validate_mode_at_most_def symlink_metadata_def fs_read_to_string_def fs_read_def
        read_at_def query_def look token_node_def file_node_def ROOT_UID_def MIN_TOKEN_LEN_def)
  then show ?thesis by (simp add: start_token_def effective_uid_def fresh_session_def)
qed

lemma sample_apart:
  "socket_apart host_env (components (bin_socket_path sample_vars))
     (production prompt_programs SshdControlConfig_default OpsConfig_default) [lit ''run'', lit ''h'']
     [lit ''etc'', lit ''ssh'', lit ''mayfly'', lit ''trusted_user_ca_keys'']
     [lit ''etc'', lit ''ssh'', lit ''sshd_config.d'', lit ''90-mayfly.conf''] (fs (host_world fresh_session))"
  unfolding sample_vars_paths socket_apart_def
  by (simp add: default_paths parent_of_def parent_def tmp_path_def fresh_session_def)
    (simp add: lookup_def resolve_def host_fs_def dir_node_def lit_def)

text \<open>A client that asks for keys, and then the signal.\<close>

definition sample_turns :: "turn list" where
  "sample_turns = [\<lparr>signals = [], arrival = Connected client_conn\<rparr>, \<lparr>signals = [1, SIGTERM], arrival = WouldBlock\<rparr>]"

lemma sample_requests:
  "turn_requests sample_codec sample_turns = [(peer_of client_conn, Some (Request_apply sample_token sample_keys))]"
proof -
  have "armed client_conn" by (simp add: armed_def client_conn_def stray_conn_def)
  then show ?thesis
    using read_request_delivered [OF sample_codec_ok client_delivers]
    by (simp add: sample_turns_def asked_def SIGTERM_def SIGINT_def)
qed

lemma label_of_request: "request_of l = (peer, q) \<Longrightarrow> \<exists>resp. l = (peer, q, resp)"
  by (cases l) (simp add: request_of_def)

theorem main_refines_witness:
  "\<exists>lc ld. wp (main sample_vars host_env prompt_programs sample_codec (\<lambda>_. Inr ()) registrations sample_turns)
     (\<lambda>r s'. r \<noteq> Ok FAILURE \<and> (\<exists>resp en. audit_log s' = audit_log fresh_session @ [en]
        \<and> describes en (peer_of client_conn, Some (Request_apply sample_token sample_keys), resp)
        \<and> runs (spec_step (bin_server sample_vars prompt_programs sample_token) OpsConfig_default)
            (files_of lc ld fresh_session)
            [(peer_of client_conn, Some (Request_apply sample_token sample_keys), resp)] (files_of lc ld s')))
     fresh_session"
proof -
  let ?lc = "[lit ''etc'', lit ''ssh'', lit ''mayfly'', lit ''trusted_user_ca_keys'']"
  let ?ld = "[lit ''etc'', lit ''ssh'', lit ''sshd_config.d'', lit ''90-mayfly.conf'']"
  note main_refines [OF sets_registered_registrations, of host_env prompt_programs sample_vars ?lc ?ld fresh_session
    "[lit ''run'', lit ''h'']" sample_codec "\<lambda>_. Inr ()" sample_turns,
    unfolded sample_start sample_requests sample_vars_paths(1,2) option.case, OF settled_sample sample_apart]
  then show ?thesis
    by (intro exI, elim wp_weaken) (use label_of_request in \<open>fastforce simp: list_all2_Cons2\<close>)
qed

text \<open>
  On the same host the start succeeds, so the process that \<open>main_exits\<close> speaks of serves the client and
  ends with success.
\<close>

lemma sample_main_starts:
  "wp (main sample_vars host_env prompt_programs sample_codec (\<lambda>_. Inr ()) registrations sample_turns)
     (\<lambda>r s'. r \<noteq> Ok FAILURE) fresh_session"
  unfolding main_def wp_handle
  by (rule wp_weaken [OF wp_bin_run_refines [OF sets_registered_registrations, where vars = sample_vars,
        unfolded sample_vars_paths(1,2), OF settled_sample sample_apart]])
    (auto simp: wp_return sample_start split: ret.splits)

theorem main_exits_witness:
  "wp (main sample_vars host_env prompt_programs sample_codec (\<lambda>_. Inr ()) registrations sample_turns)
     (\<lambda>r s'. r = Ok SUCCESS) fresh_session"
proof -
  have "wp (main sample_vars host_env prompt_programs sample_codec (\<lambda>_. Inr ()) registrations sample_turns)
     (\<lambda>r s'. r = Ok SUCCESS \<or> r = Ok FAILURE \<and> unserved fresh_session s') fresh_session"
    by (rule main_exits [OF sets_registered_registrations])
      (simp_all add: sample_turns_def told_to_stop_def sample_vars_paths waitable_prompt_programs)
  from wp_conj [OF this sample_main_starts] show ?thesis by (rule wp_weaken) auto
qed

end
