(* ===== verification/Timing.thy ===== *)
theory Timing
  imports Liveness
begin

text \<open>
  How long the server can be held. The connections are served one after the other, so the time of
  one of them is a delay for all others and for the poll of the shutdown flag. \<open>costs n m\<close> says that
  \<open>m\<close> takes at most \<open>n\<close> milliseconds from every state: a call on the file system costs at most its
  latency, a command its limit and what its programs add, composed code the sum; reading a request
  costs what the read timeout allows, writing the reply what the peer takes. Counted are the calls,
  the commands and the waits; the processor time of the helper's own code is not.
\<close>

section \<open>What the read timeout bounds\<close>

text \<open>A peer that sends its bytes one by one, each just in time.\<close>

definition trickle :: "nat \<Rightarrow> bytes \<Rightarrow> timed_reader" where
  "trickle m bs = map (\<lambda>b. (Some m, Data [b])) bs"

lemma timed_read_exact_trickle:
  "n \<le> length bs \<Longrightarrow>
     timed_read_exact (Some m) n (trickle m bs) = (Ok (take n bs), trickle m (drop n bs), n * m)"
proof (induction n arbitrary: bs)
  case 0
  then show ?case by (cases bs) (simp_all add: trickle_def)
next
  case (Suc n)
  then obtain b bs' where "bs = b # bs'" and "n \<le> length bs'" by (cases bs) simp_all
  with Suc.IH [of bs'] show ?case by (simp add: trickle_def wait_for_def)
qed

lemma recv_frame_trickle:
  assumes "length body \<le> MAX_BODY_BYTES"
  shows "recv_frame (Some m) \<lparr>pending = trickle m (to_be_bytes (of_nat (length body)) @ body), spent = 0\<rparr>
    = (Ok body, \<lparr>pending = [], spent = (4 + length body) * m\<rparr>)"
  using assms timed_read_exact_trickle [of 4 "to_be_bytes (of_nat (length body)) @ body" m]
    timed_read_exact_trickle [of "length body" body m]
  by (simp add: recv_frame_def recv_exact_def act_simps Let_def unat_frame_len trickle_def algebra_simps)

text \<open>
  C31 (bounds). What the read timeout bounds: not the connection, only each call. With it, reading a
  frame always ends, with what \<open>read_frame\<close> makes of the calls that the timeout lets through; absent
  interrupted calls it takes at most \<open>4 + MAX_BODY_BYTES\<close> timeouts. The bound is met, for every size of
  frame: a peer that sends a byte just before each timeout has its frame of \<open>n\<close> bytes accepted after
  \<open>4 + n\<close> timeouts, a year for the largest one. Without a timeout a silent peer holds the call for ever.
\<close>

theorem read_frame_slow_peer:
  "fst (recv_frame (Some IO_TIMEOUT) \<lparr>pending = r, spent = 0\<rparr>) = ret_of (fst (read_frame (under_timeout IO_TIMEOUT r)))
   \<and> (uninterrupted r \<longrightarrow> spent (snd (recv_frame (Some IO_TIMEOUT) \<lparr>pending = r, spent = 0\<rparr>))
        \<le> (4 + MAX_BODY_BYTES) * IO_TIMEOUT)
   \<and> (length body \<le> MAX_BODY_BYTES \<longrightarrow>
        recv_frame (Some IO_TIMEOUT)
          \<lparr>pending = trickle IO_TIMEOUT (to_be_bytes (of_nat (length body)) @ body), spent = 0\<rparr>
          = (Ok body, \<lparr>pending = [], spent = (4 + length body) * IO_TIMEOUT\<rparr>))
   \<and> fst (recv_frame None \<lparr>pending = (None, ev) # r, spent = 0\<rparr>) = Abort Hang"
proof -
  have "fst (recv_frame None \<lparr>pending = (None, ev) # r, spent = 0\<rparr>) = Abort Hang"
    by (simp add: recv_frame_def recv_exact_def act_simps wait_for_def)
  with wp_recv_frame [of IO_TIMEOUT "\<lparr>pending = r, spent = 0\<rparr>"] recv_frame_trickle show ?thesis
    by (simp add: wp_fst_snd)
qed

theorem read_frame_slow_peer_witness:
  "spent (snd (recv_frame (Some IO_TIMEOUT) \<lparr>pending = [(Some 5, Data [0, 0]), (None, Data [0])], spent = 0\<rparr>)) \<le> 31457400000
   \<and> recv_frame (Some IO_TIMEOUT) \<lparr>pending = trickle IO_TIMEOUT [0, 0, 0, 2, 7, 9], spent = 0\<rparr>
       = (Ok [7, 9], \<lparr>pending = [], spent = 180000\<rparr>)"
proof -
  have b: "length ([7, 9] :: bytes) \<le> MAX_BODY_BYTES" by (simp add: MAX_BODY_BYTES_def)
  have f: "to_be_bytes (of_nat (length ([7, 9] :: bytes))) @ [7, 9] = [0, 0, 0, 2, 7, 9]"
    by (simp add: to_be_bytes_def)
  from read_frame_slow_peer [of "[(Some 5, Data [0, 0]), (None, Data [0])]" "[7, 9]" Interrupted] b show ?thesis
    unfolding f by (simp add: MAX_BODY_BYTES_def IO_TIMEOUT_def)
qed

section \<open>A calculus of costs\<close>

named_theorems costs_intros

definition costs :: "nat \<Rightarrow> (world, 'e, 'a) act \<Rightarrow> bool" where
  "costs n m \<longleftrightarrow> (\<forall>w. clock (snd (m w)) \<le> clock w + n)"

lemma costs_le: "costs a m \<Longrightarrow> a \<le> b \<Longrightarrow> costs b m"
  unfolding costs_def by (meson add_left_mono le_trans)

lemma costs_return [costs_intros]: "costs 0 (return a)" "costs 0 (Pair (Ok a))"
  by (simp_all add: costs_def)

lemma costs_throw [costs_intros]: "costs 0 (throw x)"
  by (simp add: costs_def)

lemma costs_lift [costs_intros]: "costs 0 (lift r)"
  by (cases r) (simp_all add: costs_def)

lemma costs_handle [costs_intros]:
  assumes "costs a m" and "\<And>x. costs b (f x)" and "\<And>x. costs c (g x)"
  shows "costs (a + max b c) (handle m f g)"
  unfolding costs_def
proof
  fix w
  obtain r w1 where r: "m w = (r, w1)" by fastforce
  from assms(1) r have "clock w1 \<le> clock w + a" unfolding costs_def by (metis snd_conv)
  moreover have "clock (snd (f x w1)) \<le> clock w1 + max b c" "clock (snd (g y w1)) \<le> clock w1 + max b c" for x y
    using assms(2) [of x] assms(3) [of y] unfolding costs_def by (meson add_left_mono le_trans max.cobounded1 max.cobounded2)+
  ultimately show "clock (snd (handle m f g w)) \<le> clock w + (a + max b c)"
    using r by (cases r) (simp_all add: handle_apply, (metis add.assoc add_le_mono1 le_trans)+)
qed

lemma costs_answer: "costs n m \<Longrightarrow> costs n (handle m (\<lambda>r. return (f r)) (\<lambda>x. return (g x)))"
  by (rule costs_le, erule costs_handle [OF _ costs_return(1) costs_return(1)]) simp

lemma costs_free: "costs 0 m \<Longrightarrow> costs n m"
  by (erule costs_le) simp

lemma costs_bind [costs_intros]:
  assumes "costs a m" and "\<And>x. costs b (f x)"
  shows "costs (a + b) (bind m f)"
proof -
  have "bind m f = handle m f throw" by (auto simp: fun_eq_iff bind_apply handle_apply split: prod.splits ret.splits)
  with costs_handle [OF assms costs_throw] show ?thesis by simp
qed

lemma costs_seq [costs_intros]: "costs a m \<Longrightarrow> costs b n \<Longrightarrow> costs (a + b) (seq m n)"
  unfolding seq_def by (rule costs_bind)

lemma costs_map_err [costs_intros]: "costs a m \<Longrightarrow> costs a (map_err h m)"
  using costs_handle [OF _ costs_return(1) costs_throw] unfolding map_err_def by fastforce

lemma costs_if [costs_intros]: "costs a m \<Longrightarrow> costs b n \<Longrightarrow> costs (max a b) (if p then m else n)"
  by (auto intro: costs_le)

lemma costs_option [costs_intros]:
  "costs a m \<Longrightarrow> (\<And>x. costs b (f x)) \<Longrightarrow> costs (max a b) (case o' of None \<Rightarrow> m | Some x \<Rightarrow> f x)"
  by (cases o') (auto intro: costs_le [of a] costs_le [of b])

section \<open>The file system\<close>

text \<open>No call takes longer than \<open>L\<close> milliseconds; the bounds below count calls.\<close>

definition responsive :: "env \<Rightarrow> nat \<Rightarrow> bool" where
  "responsive e L \<longleftrightarrow> (\<forall>k. latency e k \<le> L)"

lemma costs_query [costs_intros]: "responsive e L \<Longrightarrow> costs L (query e q)"
  by (simp add: costs_def query_def responsive_def split: option.splits sum.splits)

lemma costs_change [costs_intros]: "responsive e L \<Longrightarrow> costs L (change e g)"
  by (simp add: costs_def change_def responsive_def split: option.splits sum.splits)

lemma costs_calls [costs_intros]:
  assumes "responsive e L"
  shows "costs L (sync_all e l)" "costs L (tempfile_new_in e d)" "costs L (file_write_all e l bs)"
  using assms
  by (auto simp: costs_def sync_all_def tempfile_new_in_def file_write_all_def responsive_def Let_def
      split: option.splits sum.splits)

lemma costs_files [costs_intros]:
  assumes "responsive e L"
  shows "costs L (symlink_metadata e p)" "costs L (metadata e p)" "costs L (fs_read e p)" "costs L (fs_open e p)"
    "costs L (fs_rename e p q)" "costs L (fs_remove_file e p)" "costs L (file_set_permissions e l m)"
    "costs L (fs_mkdir e p)" "costs L (fs_set_permissions e p m)"
  unfolding symlink_metadata_def metadata_def fs_read_def fs_open_def fs_rename_def fs_remove_file_def
    file_set_permissions_def fs_mkdir_def fs_set_permissions_def
  by (rule costs_intros assms)+

lemma costs_exists [costs_intros]:
  assumes "responsive e L"
  shows "costs L (path_exists e p)" "costs L (path_is_dir e p)"
  unfolding path_exists_def path_is_dir_def by (rule costs_le, (rule costs_intros assms)+, simp)+

lemma costs_create_dir_all:
  assumes "responsive e L"
  shows "costs (3 * length p * L) (create_dir_all e p)"
proof (induction p rule: measure_induct_rule [of length])
  case (less p)
  show ?case
  proof (cases "p = []")
    case True
    then show ?thesis by (simp add: create_dir_all.simps costs_return)
  next
    case False
    then obtain n where n: "length p = Suc n" by (cases p) simp_all
    have q: "costs (3 * n * L) (create_dir_all e q)" if "parent p = Some q" for q
      using less [of q] that n by (auto simp: parent_def split: if_splits)
    show ?thesis
    proof (cases "parent p")
      case None
      show ?thesis
        by (subst create_dir_all.simps, simp add: False None cong: if_cong, rule costs_le, (rule costs_intros assms)+)
          (simp add: n add_mult_distrib)
    next
      case (Some q)
      show ?thesis
        by (subst create_dir_all.simps, simp add: False Some cong: if_cong, rule costs_le, (rule costs_intros assms q [OF Some])+)
          (simp add: n add_mult_distrib)
    qed
  qed
qed

lemma costs_primitives [costs_intros]:
  assumes "responsive e L"
  shows "costs L (ensure_not_symlink e p)" "costs L (ensure_not_group_or_world_writable e p)"
    "costs (8 * L) (secure_write e p c m)"
    "costs L (read_optional e p)" "costs L (read_optional_string e p)" "costs L (remove_optional e p)"
    "costs ((3 * length p + 3) * L) (ensure_directory e p)" "costs L (ensure_include_present e h)"
proof -
  note lat = assms
  have r: "costs L (read_optional e p)" for p
    unfolding read_optional_def by (rule costs_le, (rule costs_intros lat)+, simp)
  then show "costs L (read_optional e p)" .
  have rs: "costs L (read_optional_string e p)" for p
    unfolding read_optional_string_def by (rule costs_le, (rule costs_intros r)+, simp)
  then show "costs L (read_optional_string e p)" .
  show "costs L (ensure_include_present e h)"
    unfolding ensure_include_present_def by (rule costs_le, (rule costs_intros rs)+, simp)
  show "costs L (remove_optional e p)"
    unfolding remove_optional_def by (rule costs_le, (rule costs_intros lat)+, simp)
  have sl: "costs L (ensure_not_symlink e p)" for p
    unfolding ensure_not_symlink_def is_symlink_def by (rule costs_le, (rule costs_intros lat)+, simp)
  then show "costs L (ensure_not_symlink e p)" .
  show "costs L (ensure_not_group_or_world_writable e p)"
    unfolding ensure_not_group_or_world_writable_def Let_def by (rule costs_le, (rule costs_intros lat)+, simp)
  show "costs (8 * L) (secure_write e p c m)"
    unfolding secure_write_def drop_on_error_def atomic_replace_def fsync_dir_def split_def
    by (rule costs_le, (rule costs_intros lat)+, simp)
  show "costs ((3 * length p + 3) * L) (ensure_directory e p)"
    unfolding ensure_directory_def
    by (rule costs_le, (rule costs_intros lat costs_create_dir_all [OF lat] sl)+, simp add: add_mult_distrib)
qed

lemma costs_directories [costs_intros]:
  assumes "responsive e L"
  shows "costs ((3 * (length (components (trusted_ca_path (config h))) + length (components (dropin_path (config h)))) + 6) * L)
    (ensure_directories e h)"
proof -
  have d: "costs ((3 * length p + 3) * L + n) (each_directory e (parent p # ds))" if "costs n (each_directory e ds)" for p ds n
  proof (cases "parent p")
    case (Some q)
    then have "length q \<le> length p" by (auto simp: parent_def split: if_splits)
    then have "(3 * length q + 3) * L + n \<le> (3 * length p + 3) * L + n" by simp
    from costs_le [OF costs_seq [OF costs_primitives(7) [OF assms] that] this] Some show ?thesis by simp
  next
    case None
    with costs_le [OF that, of "(3 * length p + 3) * L + n"] show ?thesis by simp
  qed
  have "costs 0 (each_directory e [])" by (simp add: costs_return)
  from costs_le [OF d [OF d [OF this]]] show ?thesis
    unfolding ensure_directories_def by (simp add: algebra_simps)
qed

section \<open>Commands and operations\<close>

text \<open>
  The programs are quick: whatever is started closes its stderr within \<open>b\<close> of its exit, can be reaped
  within \<open>b\<close> after a kill, and no sleep overruns by more than \<open>l\<close>.
\<close>

definition quick :: "system \<Rightarrow> nat \<Rightarrow> nat \<Rightarrow> bool" where
  "quick sys b l \<longleftrightarrow> (\<forall>w prog args c. sys w prog args = Inr c \<longrightarrow>
     (\<exists>d k. stderr_eof c = Some d \<and> reaped c = Some k \<and> d \<le> b \<and> k \<le> b) \<and> (\<forall>t. oversleep c t \<le> l))"

definition COMMAND_BOUND :: "sshd_control_config \<Rightarrow> nat \<Rightarrow> nat \<Rightarrow> nat" where
  "COMMAND_BOUND sc b l = 1000 * unat (command_timeout sc) + POLL_INTERVAL + l + b"

lemma costs_run:
  assumes "quick sys b l"
  shows "costs (COMMAND_BOUND sc b l) (run sys sc prog args)"
  unfolding costs_def
proof
  fix w
  show "clock (snd (run sys sc prog args w)) \<le> clock w + COMMAND_BOUND sc b l"
  proof (cases "sys w prog args")
    case (Inr c)
    with assms obtain d k where c: "stderr_eof c = Some d" "reaped c = Some k" "d \<le> b" "k \<le> b" "\<And>t. oversleep c t \<le> l"
      unfolding quick_def by blast
    let ?w = "w\<lparr>trace := trace w @ [Executed prog args]\<rparr>"
    from await_returns [OF c, of "clock w + 1000 * unat (command_timeout sc)" ?w] Inr show ?thesis
      by (auto simp: run_def Let_def COMMAND_BOUND_def)
  qed (simp add: run_def)
qed

lemma costs_commands:
  assumes "quick sys b l"
  shows "costs (COMMAND_BOUND sc b l) (validate_config (SystemSshdControl sys sc))"
    "costs (COMMAND_BOUND sc b l) (reload (SystemSshdControl sys sc))"
    "costs (COMMAND_BOUND sc b l) (is_active (SystemSshdControl sys sc))"
proof -
  have "costs (COMMAND_BOUND sc b l)
      (bind (run sys sc prog args) (\<lambda>r. case r of Success \<Rightarrow> return () | _ \<Rightarrow> throw x))" for prog args x
    by (rule costs_le, rule costs_bind [OF costs_run [OF assms], where b = 0])
      (auto intro: costs_intros split: run_outcome.split)
  then show "costs (COMMAND_BOUND sc b l) (validate_config (SystemSshdControl sys sc))"
    "costs (COMMAND_BOUND sc b l) (reload (SystemSshdControl sys sc))"
    "costs (COMMAND_BOUND sc b l) (is_active (SystemSshdControl sys sc))"
    by (simp_all add: SystemSshdControl_def SystemSshdControl_validate_config_def SystemSshdControl_reload_def
        SystemSshdControl_is_active_def)
qed

text \<open>
  At most six commands are run for one request: three, and three more after a rollback. The calls:
  two directories with their parents, and twenty on the managed file and its neighbours.
\<close>

definition CALLS :: "ops_config \<Rightarrow> nat" where
  "CALLS cfg = 3 * (length (components (trusted_ca_path cfg)) + length (components (dropin_path cfg))) + 26"

definition REQUEST_BOUND :: "sshd_control_config \<Rightarrow> ops_config \<Rightarrow> nat \<Rightarrow> nat \<Rightarrow> nat \<Rightarrow> nat" where
  "REQUEST_BOUND sc cfg b l L = 6 * COMMAND_BOUND sc b l + CALLS cfg * L"

lemma costs_dispatch:
  assumes "quick sys b l" and lat: "responsive e L"
  shows "costs (REQUEST_BOUND sc cfg b l L) (dispatch e (production sys sc cfg) req)"
proof -
  let ?h = "production sys sc cfg" and ?B = "COMMAND_BOUND sc b l" and ?R = "REQUEST_BOUND sc cfg b l L"
  let ?D = "(3 * (length (components (trusted_ca_path cfg)) + length (components (dropin_path cfg))) + 6) * L"
  have R: "?R = 6 * ?B + ?D + 20 * L" by (simp add: REQUEST_BOUND_def CALLS_def add_mult_distrib)
  note cmd = costs_commands [OF assms(1), of sc]
  have dirs: "costs ?D (ensure_directories e ?h)" using costs_directories [OF lat, of ?h] by simp
  have v: "costs (3 * ?B) (validate_reload_verify ?h)"
    unfolding validate_reload_verify_def production_sel by (rule costs_le, (rule costs_intros cmd)+, simp)
  have rb: "costs (3 * ?B + 8 * L) (rollback_path e ?h p prev)" for p prev
    unfolding rollback_path_def by (rule costs_le, (rule costs_intros v lat)+, simp)
  have "costs ?R (install_sshd_dropin e ?h)"
    unfolding install_sshd_dropin_def Let_def by (rule costs_le, (rule dirs v rb lat costs_intros)+, simp add: R)
  moreover have "costs ?R (apply_trusted_ca_keys e ?h c)" for c
    unfolding apply_trusted_ca_keys_def Let_def by (rule costs_le, (rule dirs v rb lat costs_intros)+, simp add: R)
  moreover have "costs ?R (verify_state e ?h)"
    unfolding verify_state_def Let_def production_sel by (rule costs_le, (rule costs_intros cmd lat)+, simp add: R)
  moreover have "costs ?R (ensure_directories e ?h)" by (rule costs_le [OF dirs]) (simp add: R)
  ultimately show ?thesis
    by (cases "op req"; cases "content req")
      (simp_all add: dispatch_def to_response_def costs_answer costs_free costs_return)
qed

section \<open>Connections\<close>

text \<open>The longest time from one poll of the shutdown flag to the next, for a peer that takes its reply within \<open>m\<close>.\<close>

definition TURN_BOUND :: "sshd_control_config \<Rightarrow> ops_config \<Rightarrow> nat \<Rightarrow> nat \<Rightarrow> nat \<Rightarrow> nat \<Rightarrow> nat" where
  "TURN_BOUND sc cfg b l L m = READ_BOUND + REQUEST_BOUND sc cfg b l L + m"

text \<open>A connection in time, and its audit line, if any, says so.\<close>

definition in_time :: "nat \<Rightarrow> session \<Rightarrow> session \<Rightarrow> bool" where
  "in_time n s s' \<longleftrightarrow> clock (host_world s') \<le> clock (host_world s) + n
     \<and> (\<exists>ens. audit_log s' = audit_log s @ ens \<and> list_all (\<lambda>en. duration_ms en \<le> n) ens)"

lemma logged_in_time:
  assumes "logged s (clock (host_world s)) lb w m' s'" and "clock w \<le> clock (host_world s) + k" and "k + m' \<le> n"
  shows "in_time n s s'"
  using assms by (fastforce simp: logged_def in_time_def)

lemma served_in_time:
  assumes "quick sys b l" and "responsive e L" and "served e j (daemon p t g pol (production sys sc cfg)) c n s r s'"
    and "n \<le> READ_BOUND" and "drain_time c \<le> m"
  shows "in_time (TURN_BOUND sc cfg b l L m) s s'"
proof -
  let ?srv = "daemon p t g pol (production sys sc cfg)" and ?R = "REQUEST_BOUND sc cfg b l L"
  have "clock (snd (evaluate e ?srv (peer_of c) q (delayed n (host_world s)))) \<le> clock (delayed n (host_world s)) + ?R" for q
    using costs_dispatch [OF assms(1,2), of sc cfg q, unfolded costs_def, rule_format, of "delayed n (host_world s)"]
    by (simp add: evaluate_eq)
  then have w: "clock w \<le> clock (host_world s) + (READ_BOUND + ?R)"
    if "evaluate e ?srv (peer_of c) q (delayed n (host_world s)) = (x, w)" for q x w
    using that assms(4) by (fastforce dest: spec [of _ q])
  have b: "(READ_BOUND + ?R) + drain_time c \<le> TURN_BOUND sc cfg b l L m" using assms(5) by (simp add: TURN_BOUND_def)
  show ?thesis
  proof (cases "received j c")
    case (Inl x)
    with assms(3) obtain lb where "logged s (clock (host_world s)) lb (delayed n (host_world s)) (drain_time c) s'"
      by (auto simp: served_def)
    from logged_in_time [OF this _ b] assms(4) show ?thesis by simp
  next
    case (Inr q)
    obtain x w' where ev: "evaluate e ?srv (peer_of c) q (delayed n (host_world s)) = (x, w')" by fastforce
    show ?thesis
    proof (cases x)
      case (Ok resp)
      with assms(3) Inr ev have "logged s (clock (host_world s)) (peer_of c, Some q, resp) w' (drain_time c) s'"
        by (simp add: served_def)
      from logged_in_time [OF this w [OF ev] b] show ?thesis .
    next
      case (Abort y)
      with assms(3) Inr ev have "host_world s' = w'" "audit_log s' = audit_log s" by (simp_all add: served_def)
      with w [OF ev] b show ?thesis by (simp add: in_time_def)
    qed (use assms(3) Inr ev in \<open>simp add: served_def\<close>)
  qed
qed

lemma wp_connection_in_time:
  assumes "quick sys b l" and "responsive e L" and "uninterrupted (incoming c)" and "drain_time c \<le> m"
  shows "wp (with_conn c (handle_connection e j (daemon p t g pol (production sys sc cfg))))
     (\<lambda>r s'. in_time (TURN_BOUND sc cfg b l L m) s s') s"
proof (rule wp_weaken [OF wp_connection_served], goal_cases)
  case (1 r s')
  show ?case
  proof (cases "armed c")
    case True
    with 1 assms(3) obtain n where "served e j (daemon p t g pol (production sys sc cfg)) c n s r s'" "n \<le> READ_BOUND" by auto
    from served_in_time [OF assms(1,2) this assms(4)] show ?thesis .
  qed (use 1 in \<open>simp add: in_time_def\<close>)
qed

text \<open>Turns add up, and each is within its bound.\<close>

definition paced :: "nat \<Rightarrow> nat \<Rightarrow> session \<Rightarrow> session \<Rightarrow> bool" where
  "paced k n s s' \<longleftrightarrow> clock (host_world s') \<le> clock (host_world s) + k * n
     \<and> (\<exists>ens. audit_log s' = audit_log s @ ens \<and> list_all (\<lambda>en. duration_ms en \<le> n) ens)"

lemma paced_refl: "paced k n s s"
  by (simp add: paced_def)

lemma paced_Suc: "in_time n s s1 \<Longrightarrow> paced k n s1 s' \<Longrightarrow> paced (Suc k) n s s'"
  by (fastforce simp: paced_def in_time_def)

lemma nap_in_time: "in_time (TURN_BOUND sc cfg b l L m) s (s\<lparr>host_world := delayed ACCEPT_POLL (host_world s)\<rparr>)"
  by (simp add: in_time_def TURN_BOUND_def READ_BOUND_def ACCEPT_POLL_def IO_TIMEOUT_def MAX_BODY_BYTES_def)

text \<open>Peers that no signal interrupts while they are read from, and that take their reply within \<open>m\<close>.\<close>

definition patient :: "nat \<Rightarrow> poll list \<Rightarrow> bool" where
  "patient m polls \<longleftrightarrow> list_all (\<lambda>p. case accept p of
     Connected c \<Rightarrow> uninterrupted (incoming c) \<and> drain_time c \<le> m | _ \<Rightarrow> True) polls"

text \<open>
  C28 (bounds). How long the helper can be deaf. Suppose that the programs it starts are quick, that
  no call on the file system takes longer than \<open>L\<close>, that no read from a socket is interrupted, and that every peer
  takes its reply within \<open>m\<close>. Then whoever connects and however slowly they send, each turn of the
  accept loop takes at most the time of the slowest frame, of six commands, of a fixed number of
  calls (\<open>CALLS\<close>, which grows with the depth of the configured paths) and of the reply: \<open>k\<close> turns are
  over after \<open>k\<close> times that, so the shutdown flag is looked at that often, and no audit line reports
  a longer duration. The processor time of the helper itself is not counted.
\<close>

theorem accept_loop_paced:
  assumes "quick sys b l" and "responsive e L" and "patient m polls"
  shows "wp (accept_loop e j (daemon p t g pol (production sys sc cfg)) polls)
     (\<lambda>r s'. clock (host_world s') \<le> clock (host_world s) + length polls * TURN_BOUND sc cfg b l L m
        \<and> (\<exists>ens. audit_log s' = audit_log s @ ens \<and> list_all (\<lambda>en. duration_ms en \<le> TURN_BOUND sc cfg b l L m) ens)) s"
proof -
  let ?srv = "daemon p t g pol (production sys sc cfg)" and ?T = "TURN_BOUND sc cfg b l L m"
  have "wp (accept_loop e j ?srv polls) (\<lambda>r s'. paced (length polls) ?T s s') s"
    using assms(3)
  proof (induction polls arbitrary: s)
    case Nil
    show ?case by (simp add: wp_def paced_refl)
  next
    case (Cons q ps)
    have turn: "wp (case accept q of
          Connected c \<Rightarrow> handle (with_conn c (handle_connection e j ?srv)) return (\<lambda>_. return ())
        | WouldBlock \<Rightarrow> sleep ACCEPT_POLL | AcceptError k \<Rightarrow> sleep ACCEPT_POLL) (\<lambda>r s1. in_time ?T s s1) s"
    proof (cases "accept q")
      case (Connected c)
      with Cons.prems have "uninterrupted (incoming c)" "drain_time c \<le> m" by (simp_all add: patient_def)
      from wp_connection_in_time [OF assms(1,2) this] have "wp (handle (with_conn c (handle_connection e j ?srv))
          return (\<lambda>_. return ())) (\<lambda>r s1. in_time ?T s s1) s"
        unfolding wp_handle by (rule wp_weaken) (simp add: wp_return split: ret.split)
      with Connected show ?thesis by simp
    qed (simp_all add: wp_def sleep_def nap_in_time)
    have more: "wp (accept_loop e j ?srv ps) (\<lambda>r s'. paced (Suc (length ps)) ?T s s') s1" if "in_time ?T s s1" for s1
      using Cons.prems by (intro wp_weaken [OF Cons.IH]) (auto simp: patient_def intro: paced_Suc [OF that])
    show ?case
    proof (cases "stop q")
      case True
      then show ?thesis by (simp add: wp_def paced_refl)
    next
      case False
      have "paced (Suc (length ps)) ?T s s1" if "in_time ?T s s1" for s1 using paced_Suc [OF that paced_refl] .
      with False show ?thesis by simp (rule wp_seqI [OF turn], auto intro: more)
    qed
  qed
  then show ?thesis by (rule wp_weaken) (simp add: paced_def)
qed

text \<open>A peer that announces a byte and never sends it.\<close>

definition silent_conn :: connection where
  "silent_conn = stray_conn\<lparr>incoming := [(Some 5, Data [0, 0, 0, 1]), (None, Data [65])]\<rparr>"

theorem accept_loop_paced_witness:
  "wp (accept_loop (host_env\<lparr>latency := \<lambda>_. 20\<rparr>) no_codec (daemon [] [] None PeerPolicy_unenforced
         (production prompt_programs SshdControlConfig_default OpsConfig_default))
       [\<lparr>stop = False, accept = Connected silent_conn\<rparr>, \<lparr>stop = True, accept = WouldBlock\<rparr>])
     (\<lambda>r s'. clock (host_world s') \<le> 2 * 31457491189
        \<and> (\<exists>ens. audit_log s' = ens \<and> list_all (\<lambda>en. duration_ms en \<le> 31457491189) ens)) fresh_session"
proof -
  have q: "quick prompt_programs 1 0"
    by (auto simp: quick_def prompt_programs_def slow_child_def split: if_splits)
  have T: "TURN_BOUND SshdControlConfig_default OpsConfig_default 1 0 20 3 = 31457491189"
    by (simp add: TURN_BOUND_def REQUEST_BOUND_def CALLS_def READ_BOUND_def COMMAND_BOUND_def SshdControlConfig_default_def
        DEFAULT_COMMAND_TIMEOUT_def POLL_INTERVAL_def MAX_BODY_BYTES_def IO_TIMEOUT_def default_paths)
  have e: "responsive (host_env\<lparr>latency := \<lambda>_. 20\<rparr>) 20" by (simp add: responsive_def)
  have u: "patient 3 [\<lparr>stop = False, accept = Connected silent_conn\<rparr>, \<lparr>stop = True, accept = WouldBlock\<rparr>]"
    by (simp add: patient_def silent_conn_def stray_conn_def)
  from accept_loop_paced [OF q e u, where s = fresh_session and j = no_codec and p = "[]" and t = "[]"
      and g = None and pol = PeerPolicy_unenforced and sc = SshdControlConfig_default and cfg = OpsConfig_default]
  show ?thesis unfolding T by (simp add: fresh_session_def)
qed

end
