(* ===== verification/Spec2Isabelle.thy ===== *)
theory Spec2Isabelle
  imports Main_Refinement Timing
begin

text \<open>
  \<^bold>\<open>A verification library for mayfly-helper.\<close>

  \<^bold>\<open>The program.\<close> \<^verbatim>\<open>mayfly-helper\<close> is a small daemon that runs as root and does a fixed set of
  things to the SSH server of its host on behalf of an unprivileged agent. The binary
  (\<^verbatim>\<open>src/bin/mayfly-helper.rs\<close>) reads its configuration from the environment, insists on root,
  loads a capability token from a file it has checked, and runs the server. The server
  (\<^verbatim>\<open>src/server.rs\<close>) binds a Unix socket and, one connection at a time, reads one framed request,
  authenticates it (kernel credentials of the peer, protocol version, token), has it executed,
  writes one audit line and one framed response. The operations (\<^verbatim>\<open>src/ops.rs\<close>) create the
  managed directories, install the \<^verbatim>\<open>sshd\<close> drop-in, replace the list of trusted CA keys and verify
  the managed state; the two that write do so atomically (\<^verbatim>\<open>src/security.rs\<close>), then validate,
  reload and probe \<^verbatim>\<open>sshd\<close> (\<^verbatim>\<open>src/sshd_control.rs\<close>) and restore the previous file when that fails.
  What is written is parsed and rendered by \<^verbatim>\<open>src/ssh/trusted_ca.rs\<close> and
  \<^verbatim>\<open>src/ssh/sshd_config.rs\<close>; requests and responses are framed by \<^verbatim>\<open>src/protocol.rs\<close>.

  \<^bold>\<open>The theories\<close>, in the order in which they build on each other:

  \<^item> \<open>Prelude\<close>: integer widths, collections of proof rules, and the type of effectful code: an
    \<open>act\<close> takes a state to a result and a state, where the result is \<open>Ok\<close>, \<open>Err\<close> (a Rust
    \<^verbatim>\<open>Err\<close>) or \<open>Abort\<close> (a panic, or blocking for ever). \<open>bind\<close> and \<open>seq\<close> are Rust's \<^verbatim>\<open>?\<close>, \<open>handle\<close>
    is a \<^verbatim>\<open>match\<close> on a result. \<open>wp\<close> is the weakest precondition with its rules.
  \<^item> \<open>Rust_Str\<close>: Rust strings as lists of Unicode scalar values with their UTF-8 bytes, and the
    methods of \<^verbatim>\<open>str\<close> the sources use (\<^verbatim>\<open>lines\<close>, \<^verbatim>\<open>trim\<close>, \<^verbatim>\<open>split_whitespace\<close>, \<^verbatim>\<open>parse\<close> and
    others). Standard library, not code of the crate.
  \<^item> \<open>Errors\<close> (\<^verbatim>\<open>src/errors.rs\<close>): the error type and its messages.
  \<^item> \<open>Trusted_Ca\<close> (\<^verbatim>\<open>src/ssh/trusted_ca.rs\<close>) and \<open>Sshd_Config\<close> (\<^verbatim>\<open>src/ssh/sshd_config.rs\<close>): the
    parsers and renderers, proved equivalent to declarative readings of the two formats, with
    their round trips.
  \<^item> \<open>Protocol\<close> (\<^verbatim>\<open>src/protocol.rs\<close>): the wire types, framing over a stream that delivers any
    pieces and fails anywhere, the comparison of tokens.
  \<^item> \<open>Timed_Stream\<close>: the same framing at a socket, whose calls take time, give up at the read timeout
    in force and block for ever without one; proved to read what \<open>Protocol\<close> reads.
  \<^item> \<open>Fs\<close>: the part of the operating system the crate uses: paths, inodes with kind, owner, group
    and mode, path resolution with symbolic links, one definition per system call. The state
    \<open>world\<close> holds the file system, a clock in milliseconds, a counter of calls and the trace of
    all mutations, flushes and programs started. Any call may fail: \<open>fault\<close> of the environment
    says for each call number whether it does and how. Theorems without a hypothesis on \<open>fault\<close>
    hold for every pattern of failures. Every call takes the time that \<open>latency\<close> gives it.
  \<^item> \<open>Security\<close> (\<^verbatim>\<open>src/security.rs\<close>): atomic writes and the checks of links, owners and modes.
  \<^item> \<open>Sshd_Control\<close> (\<^verbatim>\<open>src/sshd_control.rs\<close>): the trait as a record of three actions, and the
    production implementation with its poll loop and deadline.
  \<^item> \<open>Ops\<close> and \<open>Ops_Safety\<close> (\<^verbatim>\<open>src/ops.rs\<close>): the operations and \<open>dispatch\<close>; the lemmas about each
    operation against the contract of the trait; the theorems about the operations as the binary
    builds them (\<open>production\<close>).
  \<^item> \<open>Peercred\<close> (\<^verbatim>\<open>src/peercred.rs\<close>) and \<open>Server\<close> (\<^verbatim>\<open>src/server.rs\<close>): credentials and policy; the
    socket, one connection, the accept loop. The state \<open>session\<close> adds the request counter, the
    audit lines and the connections to the world; a connection says when its bytes arrive and how
    long it takes its reply (\<open>drain_time\<close>). \<open>wp_connection_served\<close> says all that a connection
    does: what it read, after which time, how it was answered and logged.
  \<^item> \<open>Shutdown\<close> (\<^verbatim>\<open>src/shutdown.rs\<close>): the flag, its clones and the signal handlers, as references
    into the atomics of the process.
  \<^item> \<open>Logging\<close> (\<^verbatim>\<open>src/logging.rs\<close>): the installation of the log subscriber.
  \<^item> \<open>Helper_Bin\<close> (\<^verbatim>\<open>src/bin/mayfly-helper.rs\<close>, \<^verbatim>\<open>src/platform.rs\<close>): \<open>main\<close>, and \<open>process_main\<close>
    that installs the subscriber before it. A run is given by its turns: the signals that
    arrived before the turn and what \<^verbatim>\<open>accept\<close> returns; \<open>watch\<close> makes of them what the loop polls.
  \<^item> \<open>Liveness\<close>: which of this code always comes back, up to the exit of the process.
  \<^item> \<open>Timing\<close>: how long it takes. A calculus of costs gives the time of an operation from that of its
    commands and calls (\<open>CALLS\<close>, \<open>REQUEST_BOUND\<close>), and with the reading of the request and the
    writing of the reply the time of a turn of the loop (\<open>TURN_BOUND\<close>).
  \<^item> \<open>End_To_End\<close>: one request from the client's bytes to the client's reading of the reply.
  \<^item> \<open>Host_Spec\<close>: the contract of the daemon as an abstract machine. Its state is the contents of
    the two managed files and of all others, its steps (\<open>op_step\<close>, \<open>spec_step\<close>) are requests with
    their answers; system calls, frames, temporary files and rollback do not occur in it. Like the
    code, it reads a peer's request before it looks at the user id.
  \<^item> \<open>Host_Refinement\<close>: the server implements that machine: one lemma for each operation, then
    one connection, then the accept loop.
  \<^item> \<open>Main_Refinement\<close>: and so does the process, from its start to its exit. \<open>start_token\<close> says which
    starts succeed: as root, with a token that loads and handlers that install.
  \<^item> this theory: the two safety theorems about a whole run of the process.

  \<^bold>\<open>Interfaces.\<close> The locale \<open>step_relation\<close> of \<open>Fs\<close> is the contract of a reflexive and transitive
  relation between the states before and after a piece of code; its lemmas show that composed
  code moves along the relation when the single calls do. It is interpreted for invariants of the
  file system (\<open>inv\<close>), for the set of programs started (\<open>cmd\<close>), for the clock (\<open>tml\<close>) and for
  the safety of the managed files (\<open>mgd\<close>), and lifted to the server's state by
  \<open>on_host_step\<close>. The locale \<open>sshd_control\<close> states what the operations rely on of an
  \<^verbatim>\<open>SshdControl\<close>: each of its three actions leaves the file system alone, starts only
  programs of a given list and fails with its own error only. The lemmas about the operations
  are proved once inside it; the interpretation \<open>system\<close> discharges it for the production
  implementation. The locale \<open>simulation\<close> of \<open>Host_Spec\<close> is the contract of a concrete step
  relation with an invariant and an abstraction function whose every step is a run of an abstract
  machine; the interpretation \<open>helper\<close> is the server with the abstract machine above.

  \<^bold>\<open>What the theorems show.\<close>
  \<^item> For the whole process: no file other than the two managed ones ever changes, these two only
    ever hold well-formed content, and only three fixed commands are started
    (\<open>main_only_managed\<close>, \<open>main_allow_list\<close>), under every pattern of failing calls, with any
    peers and any behaviour of the programs started. When a signal tells it to stop and the
    programs can be waited for, the process exits (\<open>main_exits\<close>), and nobody who connects from
    that turn on matters (\<open>main_stops_at_signal\<close>).
  \<^item> For the contract: from a host in order, with no failing call and programs that can be waited
    for, the server on any connections is a run of the abstract machine on the requests that the
    peers sent, and its audit lines describe the answers (\<open>accept_loop_refines\<close>); and so is the
    whole process when its start succeeds, on the requests that came before the first signal and
    with the token that was loaded, while a start that fails changes no file and serves nobody
    (\<open>main_refines\<close>). In particular the key
    file always holds the keys of the last request that was answered with a success
    (\<open>key_file_history\<close>).
  \<^item> For a client of a host in order on which no call fails: the reply to a list of keys tells the
    truth about the host (\<open>apply_end_to_end\<close>), through framing, codec, authentication, operation and rollback.
  \<^item> For the server: a request is executed only when all three factors are right
    (\<open>evaluate_gate\<close>, \<open>refused_connections_inert\<close>); one reply and one audit line for each
    connection, with distinct numbers; the socket is private.
  \<^item> For the operations: crash safety in every intermediate state, rollback on a healthy host,
    meaning of each success, idempotence, the order of the commands, answers that leak nothing.
  \<^item> For the primitives: atomicity of \<open>secure_write\<close> under every fault, the order of its flushes,
    what each check decides, bounds on the time a command takes (\<open>run_bounded\<close>) and when it counts
    as done or timed out (\<open>run_verdict\<close>).
  \<^item> For the time: reading a frame ends by the read timeouts (\<open>read_frame_slow_peer\<close>), and a turn of
    the loop takes no longer than that, six commands, a fixed number of file-system calls and the
    reply, given bounds on a call, on a child's end and on a peer's taking of its reply
    (\<open>accept_loop_paced\<close>).
  \<^item> For the formats: parsers against grammars written without the functions of the code (key
    lines, base64, \<^verbatim>\<open>Include\<close> lines), round trips, framing against its meaning.
  \<^item> Where the code falls short of its comments, a theorem says so: an error of \<open>secure_write\<close> can
    come after the replacement (\<open>secure_write_flush_failure\<close>), a command whose stderr stays open
    outlasts its limit (\<open>run_verdict\<close>), a huge limit makes it panic (\<open>run_huge_timeout_panics\<close>),
    a symbolic link without a target passes the verification of the state
    (\<open>verify_state_dangling\<close>), the request of a peer that is not admitted is read before it is
    refused (\<open>unadmitted_peer_is_read\<close>), a malformed user id
    admits everyone (\<open>bin_peer_policy_admits\<close>), the first setting of a directive wins, not the
    drop-in (\<open>find_first_wins\<close>), and a peer that sends a byte per timeout holds the server for as
    long as its frame is (\<open>read_frame_slow_peer\<close>).

  \<^bold>\<open>Bounds.\<close> Path resolution follows at most 40 symbolic links, the limit of the Linux kernel,
  and then fails with an error as the kernel does; no theorem assumes fewer. The poll loop
  of a command terminates by its deadline, with no fuel. The accept loop runs over the list
  of what each turn finds; a list in which no signal sets the stop flag ends in \<open>Abort Hang\<close>, so a loop
  that is never told to stop does not count as returning. Modes are written in hexadecimal
  (\<^verbatim>\<open>0600\<close> is \<open>0x180\<close>, \<^verbatim>\<open>0640\<close> is \<open>0x1A0\<close>, \<^verbatim>\<open>0644\<close> is \<open>0x1A4\<close>, \<^verbatim>\<open>0660\<close> is \<open>0x1B0\<close>, \<^verbatim>\<open>0755\<close> is \<open>0x1ED\<close>).

  \<^bold>\<open>Parameters.\<close> Code outside the repository is an argument: the random names of the \<^verbatim>\<open>tempfile\<close>
  crate (\<open>tmp_name\<close> of the environment), the JSON codec of \<^verbatim>\<open>serde_json\<close> (\<open>codec\<close>), the programs
  started (\<open>system\<close>), the registration of signal handlers by \<^verbatim>\<open>signal_hook\<close> (\<open>reg\<close>) and what it
  makes of a signal (\<open>hook\<close>, with the hypothesis \<open>sets_registered\<close> where a theorem needs it), the
  log subscriber of \<^verbatim>\<open>tracing\<close> (\<open>tracing\<close>, with the hypothesis \<open>set_once\<close>), the kernel's credentials of a peer through \<^verbatim>\<open>rustix\<close> (a field of \<open>connection\<close>), what a peer sends and when.

  \<^bold>\<open>Not modelled.\<close> The single \<^verbatim>\<open>tracing\<close> calls, which only feed a third-party subscriber (the audit
  line is modelled, as state); the text that third-party code renders (JSON, the log format); other
  processes that change the file system during a run; pipes and device nodes, also where the code
  would read one, such as at the token path, which it does not require to be a regular file; the
  processor time of the helper itself (its calls, sleeps, reads and replies do take time; a
  write that times out is one that fails, after the time \<open>drain_time\<close>); hard links;
  \<^verbatim>\<open>src/lib.rs\<close> and \<^verbatim>\<open>src/ssh/mod.rs\<close>, which only declare modules; unit tests, deployment scripts and
  documents.
\<close>

section \<open>The program from end to end\<close>

lemma always_load_token: "always (managed_step e cfg) (load_token vars e')"
  unfolding always_def
  by (intro allI, rule wp_weaken [OF wp_load_token]) (simp add: managed_step_def)

lemma always_validate_root: "always (managed_step e cfg) (validate_root e')"
  unfolding validate_root_def by (intro mgd.always_intros)

text \<open>
  C1 (safety). The whole program. However the helper is configured through its environment,
  whoever connects and whatever they send, whatever calls fail and whatever \<^verbatim>\<open>sshd\<close> and
  \<^verbatim>\<open>systemctl\<close> do: in every state of the host from the start of the process to its exit, each
  file that was there at the start has its bytes, or is the configured key file with a
  well-formed list of allowed keys, or is the configured drop-in with the text rendered for it;
  no directory is lost and no symbolic link appears, disappears or changes.
\<close>

theorem main_only_managed:
  "wp (main vars e sys j reg hook turns)
     (\<lambda>r s'. only_managed e (OpsConfig_from_env (env_var vars)) (fs (host_world s)) (fs (host_world s'))
        \<and> passed (only_managed e (OpsConfig_from_env (env_var vars)) (fs (host_world s)))
            (host_world s) (host_world s')) s"
proof -
  let ?cfg = "OpsConfig_from_env (env_var vars)"
  note S = on_host_step [OF mgd.step_relation_axioms [of e ?cfg]]
  have "always (on_host (managed_step e ?cfg)) (server_run e j (bin_server vars sys tok) polls)" for tok polls
    using wp_server_run_managed by (simp add: always_def on_host_def managed_step_def bin_server_daemon)
  then have "always (on_host (managed_step e ?cfg)) (main vars e sys j reg hook turns)"
    unfolding main_def bin_run_def split_def Let_def
    by (intro step_relation.always_intros [OF S] always_in_world always_load_token always_validate_root)
  then show ?thesis by (simp add: always_def on_host_def managed_step_def)
qed

text \<open>
  C11 (safety). The only programs the process ever starts are the configured \<^verbatim>\<open>sshd\<close> with
  \<^verbatim>\<open>-t\<close> and the configured \<^verbatim>\<open>systemctl\<close> with \<^verbatim>\<open>reload\<close> or \<^verbatim>\<open>is-active\<close> of the configured service:
  no byte of any request reaches a command line.
\<close>

theorem main_allow_list:
  "wp (main vars e sys j reg hook turns)
     (\<lambda>r s'. ran (allow_list (SshdControlConfig_from_env (env_var vars))) (host_world s) (host_world s')) s"
proof -
  let ?R = "ran (allow_list (SshdControlConfig_from_env (env_var vars)))"
  note S = on_host_step [OF cmd.step_relation_axioms]
  have "always (on_host ?R) (server_run e j (bin_server vars sys tok) polls)" for tok polls
    using wp_server_run_ran by (simp add: always_def on_host_def bin_server_daemon)
  moreover have "always ?R (load_token vars e)"
    unfolding always_def by (intro allI, rule wp_weaken [OF wp_load_token]) (simp add: ran_def)
  moreover have "always ?R (validate_root e)"
    unfolding validate_root_def by (intro cmd.always_intros)
  ultimately have "always (on_host ?R) (main vars e sys j reg hook turns)"
    unfolding main_def bin_run_def split_def Let_def by (intro step_relation.always_intros [OF S] always_in_world)
  then show ?thesis by (simp add: always_def on_host_def)
qed

end
